theory Spec2Isabelle
  imports Complex_Main
begin

section \<open>JavaScript values\<close>

text \<open>
  The synchronisation service (\<^verbatim>\<open>sync-service.ts\<close>) moves plain JavaScript values between the
  on-device store (Dexie) and the remote document store (Firestore). The embedding keeps
  the values as the code sees them: an object is the list of its own enumerable
  properties in the order \<^verbatim>\<open>Object.entries\<close> yields them, an array is the list of its items,
  a \<^verbatim>\<open>Date\<close> is either the Invalid Date (time value NaN) or the UTC calendar fields
  of its time value (year, month 1-12, day, hours, minutes, seconds, milliseconds):
  the fields \<^verbatim>\<open>toISOString\<close> prints and the \<^verbatim>\<open>Date\<close> constructor reads.
  Finite numbers are rationals (every finite double is one), NaN stands on its own.
  A string is the list of its characters.
\<close>

datatype jsdate = InvalidDate | UTC int nat nat nat nat nat nat

datatype jsval =
    JUndefined
  | JNull
  | JBool bool
  | JNaN
  | JNum rat
  | JStr string
  | JDate jsdate
  | JArr "jsval list"
  | JObj "(string \<times> jsval) list"

text \<open>Everything the code can throw, or a promise can reject with, is a value.\<close>

datatype error =
    RangeError      \<comment> \<open>\<^verbatim>\<open>toISOString\<close> of an Invalid Date\<close>
  | TypeError       \<comment> \<open>\<^verbatim>\<open>Object.entries\<close> of \<^verbatim>\<open>null\<close> or \<^verbatim>\<open>undefined\<close>\<close>
  | DataError       \<comment> \<open>Dexie: the key path \<^verbatim>\<open>id\<close> yields no valid key\<close>
  | FirebaseError   \<comment> \<open>the remote client refuses a document or a commit fails\<close>
  | Unmodelled      \<comment> \<open>a comparison of operands whose conversion to a primitive is not modelled\<close>

subsection \<open>Calendar dates\<close>

definition leap_year :: "int \<Rightarrow> bool" where
  "leap_year y = (y mod 4 = 0 \<and> (y mod 100 \<noteq> 0 \<or> y mod 400 = 0))"

definition days_in_month :: "int \<Rightarrow> nat \<Rightarrow> nat" where
  "days_in_month y m =
     (if m = 2 then (if leap_year y then 29 else 28)
      else if m = 4 \<or> m = 6 \<or> m = 9 \<or> m = 11 then 30 else 31)"

text \<open>The fields of a \<open>UTC\<close> value are those of a real instant.\<close>

fun valid_date :: "jsdate \<Rightarrow> bool" where
  "valid_date InvalidDate = False"
| "valid_date (UTC y mo d h mi s ms) =
     (1 \<le> mo \<and> mo \<le> 12 \<and> 1 \<le> d \<and> d \<le> days_in_month y mo
      \<and> h < 24 \<and> mi < 60 \<and> s < 60 \<and> ms < 1000)"

fun year_of :: "jsdate \<Rightarrow> int" where
  "year_of InvalidDate = 0"
| "year_of (UTC y mo d h mi s ms) = y"

text \<open>
  The time value: milliseconds since 1970-01-01T00:00:00Z, by the day number of the
  proleptic Gregorian calendar (ECMAScript's MakeDay and MakeTime). \<open>None\<close> is NaN.
\<close>

definition days_from_civil :: "int \<Rightarrow> nat \<Rightarrow> nat \<Rightarrow> int" where
  "days_from_civil y m d =
     (let y' = (if m \<le> 2 then y - 1 else y);
          era = y' div 400;
          yoe = y' - era * 400;
          mp = (if m \<le> 2 then int m + 9 else int m - 3);
          doy = (153 * mp + 2) div 5 + int d - 1;
          doe = yoe * 365 + yoe div 4 - yoe div 100 + doy
      in era * 146097 + doe - 719468)"

fun time_value :: "jsdate \<Rightarrow> int option" where
  "time_value InvalidDate = None"
| "time_value (UTC y mo d h mi s ms) =
     Some ((((days_from_civil y mo d * 24 + int h) * 60 + int mi) * 60 + int s) * 1000 + int ms)"

subsection \<open>Decimal digits\<close>

definition digit_char :: "nat \<Rightarrow> char" where
  "digit_char n = ''0123456789'' ! (n mod 10)"

text \<open>\<^verbatim>\<open>\d\<close>: the characters U+0030 to U+0039, with their values.\<close>

definition digit_val :: "char \<Rightarrow> nat option" where
  "digit_val c =
     (let n = (of_char c :: nat) in if 48 \<le> n \<and> n \<le> 57 then Some (n - 48) else None)"

text \<open>\<open>pad w n\<close>: the last \<open>w\<close> decimal digits of \<open>n\<close>, zero-padded (\<^verbatim>\<open>padStart(w, "0")\<close>).\<close>

fun pad :: "nat \<Rightarrow> nat \<Rightarrow> string" where
  "pad 0 n = []"
| "pad (Suc w) n = digit_char (n div 10 ^ w) # pad w n"

text \<open>The decimal name of an array index, as \<^verbatim>\<open>Object.entries\<close> of an array gives it.\<close>

fun show_nat :: "nat \<Rightarrow> string" where
  "show_nat n = (if n < 10 then [digit_char n] else show_nat (n div 10) @ [digit_char n])"

declare show_nat.simps [simp del]

subsection \<open>\<^verbatim>\<open>Date.prototype.toISOString\<close> and \<^verbatim>\<open>new Date(string)\<close>\<close>

text \<open>
  \<^verbatim>\<open>toISOString\<close> throws a RangeError on the Invalid Date; otherwise it prints
  \<^verbatim>\<open>YYYY-MM-DDTHH:mm:ss.sssZ\<close>, and a year outside 0..9999 in the expanded form with a
  sign and six digits.
\<close>

definition iso_string :: "jsdate \<Rightarrow> string" where
  "iso_string d = (case d of
       InvalidDate \<Rightarrow> []
     | UTC y mo dd h mi s ms \<Rightarrow>
        (if 0 \<le> y \<and> y \<le> 9999 then pad 4 (nat y)
         else (if y < 0 then ''-'' else ''+'') @ pad 6 (nat \<bar>y\<bar>))
        @ ''-'' @ pad 2 mo @ ''-'' @ pad 2 dd @ ''T'' @ pad 2 h @ '':'' @ pad 2 mi
        @ '':'' @ pad 2 s @ ''.'' @ pad 3 ms @ ''Z'')"

definition toISOString :: "jsdate \<Rightarrow> error + jsval" where
  "toISOString d = (if d = InvalidDate then Inl RangeError else Inr (JStr (iso_string d)))"

text \<open>Reading exactly \<open>w\<close> digits, and one expected character, off the front of a string.\<close>

fun scan_digits :: "nat \<Rightarrow> nat \<Rightarrow> string \<Rightarrow> (nat \<times> string) option" where
  "scan_digits 0 a s = Some (a, s)"
| "scan_digits (Suc w) a [] = None"
| "scan_digits (Suc w) a (c # cs) =
     (case digit_val c of None \<Rightarrow> None | Some v \<Rightarrow> scan_digits w (10 * a + v) cs)"

fun expect :: "char \<Rightarrow> string \<Rightarrow> string option" where
  "expect x [] = None"
| "expect x (c # cs) = (if c = x then Some cs else None)"

text \<open>
  The string format \<^verbatim>\<open>toISOString\<close> produces for a four-digit year, read back into the
  fields; \<open>None\<close> for every other string and for fields that are no instant.
\<close>

definition parse_iso :: "string \<Rightarrow> jsdate option" where
  "parse_iso s0 =
     Option.bind (scan_digits 4 0 s0) (\<lambda>(y, s1).
     Option.bind (expect CHR ''-'' s1) (\<lambda>s2.
     Option.bind (scan_digits 2 0 s2) (\<lambda>(mo, s3).
     Option.bind (expect CHR ''-'' s3) (\<lambda>s4.
     Option.bind (scan_digits 2 0 s4) (\<lambda>(dd, s5).
     Option.bind (expect CHR ''T'' s5) (\<lambda>s6.
     Option.bind (scan_digits 2 0 s6) (\<lambda>(h, s7).
     Option.bind (expect CHR '':'' s7) (\<lambda>s8.
     Option.bind (scan_digits 2 0 s8) (\<lambda>(mi, s9).
     Option.bind (expect CHR '':'' s9) (\<lambda>s10.
     Option.bind (scan_digits 2 0 s10) (\<lambda>(s, s11).
     Option.bind (expect CHR ''.'' s11) (\<lambda>s12.
     Option.bind (scan_digits 3 0 s12) (\<lambda>(ms, s13).
       if s13 = ''Z'' \<and> valid_date (UTC (int y) mo dd h mi s ms)
       then Some (UTC (int y) mo dd h mi s ms) else None)))))))))))))"

text \<open>
  \<^verbatim>\<open>new Date(s)\<close>. The model computes the result for the format above. Every other
  string (a form without milliseconds; without \<^verbatim>\<open>Z\<close>, which is local time; with an
  offset; with trailing text; with fields out of range) is left to the parameter
  \<open>engine\<close>, which stands for the parser of the JavaScript engine and the time zone of
  the device.
\<close>

definition newDate :: "(string \<Rightarrow> jsdate) \<Rightarrow> string \<Rightarrow> jsdate" where
  "newDate engine s = (case parse_iso s of Some d \<Rightarrow> d | None \<Rightarrow> engine s)"

subsection \<open>The timestamp pattern\<close>

text \<open>
  \<^verbatim>\<open>/^\d{4}-\d{2}-\d{2}T\d{2}:\d{2}:\d{2}/.test(s)\<close>: the pattern is anchored at the start
  only, so it accepts any string with this prefix.
\<close>

datatype pat = Digit | Lit char

fun matches_prefix :: "pat list \<Rightarrow> string \<Rightarrow> bool" where
  "matches_prefix [] s = True"
| "matches_prefix (p # ps) [] = False"
| "matches_prefix (Digit # ps) (c # cs) = (digit_val c \<noteq> None \<and> matches_prefix ps cs)"
| "matches_prefix (Lit x # ps) (c # cs) = (c = x \<and> matches_prefix ps cs)"

definition timestamp_pattern :: "pat list" where
  "timestamp_pattern =
     replicate 4 Digit @ [Lit CHR ''-''] @ replicate 2 Digit @ [Lit CHR ''-'']
     @ replicate 2 Digit @ [Lit CHR ''T''] @ replicate 2 Digit @ [Lit CHR '':'']
     @ replicate 2 Digit @ [Lit CHR '':''] @ replicate 2 Digit"

definition is_timestamp :: "string \<Rightarrow> bool" where
  "is_timestamp s = matches_prefix timestamp_pattern s"

subsection \<open>Objects\<close>

text \<open>\<^verbatim>\<open>obj.key\<close>: the property, or \<^verbatim>\<open>undefined\<close> when the object has none of that name.\<close>

fun get_prop :: "(string \<times> jsval) list \<Rightarrow> string \<Rightarrow> jsval" where
  "get_prop [] name = JUndefined"
| "get_prop ((k, w) # rest) name = (if k = name then w else get_prop rest name)"

text \<open>
  Defining an own property, as an object literal and a spread do: the property is
  replaced in place, or added at the end.
\<close>

fun define_prop :: "(string \<times> jsval) list \<Rightarrow> string \<Rightarrow> jsval \<Rightarrow> (string \<times> jsval) list" where
  "define_prop [] name v = [(name, v)]"
| "define_prop ((k, w) # rest) name v =
     (if k = name then (k, v) # rest else (k, w) # define_prop rest name v)"

text \<open>
  \<^verbatim>\<open>obj[key] = v\<close> on an object made by \<^verbatim>\<open>{}\<close>: the assignment defines the own
  property, except for the key \<^verbatim>\<open>__proto__\<close>. That assignment reaches the setter
  \<^verbatim>\<open>Object.prototype.__proto__\<close>, and the object gets no own property. (The setter makes
  an object or \<^verbatim>\<open>null\<close> the prototype of \<open>obj\<close>. An object of the model is its own
  properties: a prototype, and what would be inherited from it, is not part of it.)
\<close>

definition set_prop :: "(string \<times> jsval) list \<Rightarrow> string \<Rightarrow> jsval \<Rightarrow> (string \<times> jsval) list" where
  "set_prop kvs name v = (if name = ''__proto__'' then kvs else define_prop kvs name v)"

fun index_entries :: "nat \<Rightarrow> 'a list \<Rightarrow> (string \<times> 'a) list" where
  "index_entries i [] = []"
| "index_entries i (x # xs) = (show_nat i, x) # index_entries (Suc i) xs"

text \<open>
  \<^verbatim>\<open>Object.entries(data)\<close>: the properties of an object, the indexed items of an array,
  the indexed characters of a string, nothing for a number, a boolean or a \<^verbatim>\<open>Date\<close>, and
  a TypeError for \<^verbatim>\<open>null\<close> and \<^verbatim>\<open>undefined\<close>.
\<close>

fun object_entries :: "jsval \<Rightarrow> error + (string \<times> jsval) list" where
  "object_entries (JObj kvs) = Inr kvs"
| "object_entries (JArr xs) = Inr (index_entries 0 xs)"
| "object_entries (JStr s) = Inr (index_entries 0 (map (\<lambda>c. JStr [c]) s))"
| "object_entries JNull = Inl TypeError"
| "object_entries JUndefined = Inl TypeError"
| "object_entries v = Inr []"

text \<open>
  \<^verbatim>\<open>for (const [key, v] of entries) { acc[key] = f(v) }\<close>, and \<^verbatim>\<open>items.map(f)\<close>, where
  \<open>f\<close> may throw: the first error ends the loop.
\<close>

fun for_entries ::
  "(jsval \<Rightarrow> error + jsval) \<Rightarrow> (string \<times> jsval) list \<Rightarrow> (string \<times> jsval) list
     \<Rightarrow> error + (string \<times> jsval) list" where
  "for_entries f [] acc = Inr acc"
| "for_entries f ((k, v) # rest) acc =
     (case f v of Inl e \<Rightarrow> Inl e | Inr w \<Rightarrow> for_entries f rest (set_prop acc k w))"

fun map_items :: "(jsval \<Rightarrow> error + jsval) \<Rightarrow> jsval list \<Rightarrow> error + jsval list" where
  "map_items f [] = Inr []"
| "map_items f (item # rest) =
     (case f item of Inl e \<Rightarrow> Inl e
      | Inr w \<Rightarrow> (case map_items f rest of Inl e \<Rightarrow> Inl e | Inr ws \<Rightarrow> Inr (w # ws)))"

lemma for_entries_ext:
  "(\<And>k v. (k, v) \<in> set kvs \<Longrightarrow> f v = g v) \<Longrightarrow> for_entries f kvs acc = for_entries g kvs acc"
proof (induction kvs arbitrary: acc)
  case Nil
  show ?case by simp
next
  case (Cons kv rest)
  obtain k v where kv: "kv = (k, v)" by (cases kv)
  have fv: "f v = g v" using Cons.prems [of k v] kv by simp
  have "for_entries f rest a = for_entries g rest a" for a
  proof (rule Cons.IH)
    fix k' v' assume "(k', v') \<in> set rest"
    then show "f v' = g v'" using Cons.prems [of k' v'] by simp
  qed
  then show ?case using fv kv by (simp split: sum.splits)
qed

lemma for_entries_cong [fundef_cong]:
  "kvs = kvs' \<Longrightarrow> acc = acc' \<Longrightarrow> (\<And>k v. (k, v) \<in> set kvs' \<Longrightarrow> f v = g v)
     \<Longrightarrow> for_entries f kvs acc = for_entries g kvs' acc'"
  using for_entries_ext by blast

lemma map_items_cong [fundef_cong]:
  "xs = ys \<Longrightarrow> (\<And>x. x \<in> set ys \<Longrightarrow> f x = g x) \<Longrightarrow> map_items f xs = map_items g ys"
proof -
  assume e: "xs = ys" and h: "\<And>x. x \<in> set ys \<Longrightarrow> f x = g x"
  from h have "map_items f ys = map_items g ys"
    by (induction ys) (simp_all split: sum.splits)
  then show ?thesis using e by simp
qed

lemma index_entries_values: "(k, v) \<in> set (index_entries i xs) \<Longrightarrow> v \<in> set xs"
  by (induction xs arbitrary: i) auto

lemma size_member_JArr: "v \<in> set xs \<Longrightarrow> size v < size (JArr xs)"
  by (induction xs) auto

lemma size_member_JObj: "(k, v) \<in> set kvs \<Longrightarrow> size v < size (JObj kvs)"
  by (induction kvs) auto

lemma entries_smaller:
  "object_entries d = Inr kvs \<Longrightarrow> (k, v) \<in> set kvs \<Longrightarrow> size v < size d \<or> (\<exists>c. v = JStr [c])"
proof (cases d)
  case (JStr s)
  assume "object_entries d = Inr kvs" "(k, v) \<in> set kvs"
  with JStr have "v \<in> set (map (\<lambda>c. JStr [c]) s)"
    by (auto dest: index_entries_values)
  then show ?thesis by auto
next
  case (JArr xs)
  assume "object_entries d = Inr kvs" "(k, v) \<in> set kvs"
  with JArr have "v \<in> set xs" by (auto dest: index_entries_values)
  then show ?thesis using JArr size_member_JArr by blast
next
  case (JObj ps)
  assume "object_entries d = Inr kvs" "(k, v) \<in> set kvs"
  with JObj show ?thesis using size_member_JObj by auto
qed auto

lemma entry_obj_smaller:
  "object_entries d = Inr kvs \<Longrightarrow> (k, JObj ps) \<in> set kvs \<Longrightarrow> size (JObj ps) < size d"
  using entries_smaller by blast

lemma entry_date_smaller:
  "object_entries d = Inr kvs \<Longrightarrow> (k, JDate dt) \<in> set kvs \<Longrightarrow> size (JDate dt) < size d"
  using entries_smaller by blast

lemma item_smaller:
  "object_entries d = Inr kvs \<Longrightarrow> (k, JArr xs) \<in> set kvs \<Longrightarrow> item \<in> set xs
     \<Longrightarrow> size item < size d"
proof -
  assume a: "object_entries d = Inr kvs" "(k, JArr xs) \<in> set kvs" and b: "item \<in> set xs"
  from a have "size (JArr xs) < size d" using entries_smaller by blast
  moreover from b have "size item < size (JArr xs)" by (rule size_member_JArr)
  ultimately show ?thesis by simp
qed

section \<open>The codec\<close>

text \<open>
  \<^verbatim>\<open>serializeForFirestore\<close> (lines 23-40): every own property of \<open>data\<close> is copied into a
  new object; a \<^verbatim>\<open>Date\<close> becomes its ISO string, the items of an array are mapped (a
  \<^verbatim>\<open>Date\<close> to its string, any other non-null object, an array included, through the
  function itself), any other non-null object goes through the function itself, and
  everything else is copied as it is.
\<close>

function serializeForFirestore :: "jsval \<Rightarrow> error + jsval" where
  "serializeForFirestore data =
     (case object_entries data of
        Inl e \<Rightarrow> Inl e
      | Inr kvs \<Rightarrow>
          map_sum id JObj (for_entries (\<lambda>v.
            case v of
              JDate d \<Rightarrow> toISOString d
            | JArr items \<Rightarrow> map_sum id JArr (map_items (\<lambda>item.
                case item of
                  JDate d \<Rightarrow> toISOString d
                | JArr xs \<Rightarrow> serializeForFirestore item
                | JObj ps \<Rightarrow> serializeForFirestore item
                | _ \<Rightarrow> Inr item) items)
            | JObj ps \<Rightarrow> serializeForFirestore v
            | _ \<Rightarrow> Inr v) kvs []))"
  by pat_completeness auto
termination
  by (relation "measure size")
    (auto simp del: jsval.size intro: item_smaller entry_obj_smaller)

declare serializeForFirestore.simps [simp del]

text \<open>
  \<^verbatim>\<open>deserializeFromFirestore\<close> (lines 42-64): a string with the timestamp prefix becomes
  \<^verbatim>\<open>new Date(string)\<close>, as a property and as an array item; the items of an array are
  mapped; non-null objects go through the function itself; everything else is copied.
  Nothing here throws, except \<^verbatim>\<open>Object.entries\<close> on \<^verbatim>\<open>null\<close> or \<^verbatim>\<open>undefined\<close> data.
\<close>

function deserializeFromFirestore :: "(string \<Rightarrow> jsdate) \<Rightarrow> jsval \<Rightarrow> error + jsval" where
  "deserializeFromFirestore engine data =
     (case object_entries data of
        Inl e \<Rightarrow> Inl e
      | Inr kvs \<Rightarrow>
          map_sum id JObj (for_entries (\<lambda>v.
            case v of
              JStr s \<Rightarrow> Inr (if is_timestamp s then JDate (newDate engine s) else v)
            | JArr items \<Rightarrow> map_sum id JArr (map_items (\<lambda>item.
                case item of
                  JStr s \<Rightarrow> Inr (if is_timestamp s then JDate (newDate engine s) else item)
                | JDate d \<Rightarrow> deserializeFromFirestore engine item
                | JArr xs \<Rightarrow> deserializeFromFirestore engine item
                | JObj ps \<Rightarrow> deserializeFromFirestore engine item
                | _ \<Rightarrow> Inr item) items)
            | JDate d \<Rightarrow> deserializeFromFirestore engine v
            | JObj ps \<Rightarrow> deserializeFromFirestore engine v
            | _ \<Rightarrow> Inr v) kvs []))"
  by pat_completeness auto
termination
  by (relation "measure (\<lambda>(engine, d). size d)")
    (auto simp del: jsval.size intro: item_smaller entry_obj_smaller entry_date_smaller)

declare deserializeFromFirestore.simps [simp del]

text \<open>Encoding and then decoding, as a value written by one device reaches another.\<close>

definition round_trip :: "(string \<Rightarrow> jsdate) \<Rightarrow> jsval \<Rightarrow> error + jsval" where
  "round_trip engine x =
     (case serializeForFirestore x of Inl e \<Rightarrow> Inl e | Inr y \<Rightarrow> deserializeFromFirestore engine y)"

text \<open>
  The two callbacks of the encoder and of the decoder, named: what is assigned for a
  property (\<open>_prop\<close>) and what \<^verbatim>\<open>map\<close> returns for an array item (\<open>_item\<close>).
\<close>

definition serialize_item :: "jsval \<Rightarrow> error + jsval" where
  "serialize_item item =
     (case item of
        JDate d \<Rightarrow> toISOString d
      | JArr xs \<Rightarrow> serializeForFirestore item
      | JObj ps \<Rightarrow> serializeForFirestore item
      | _ \<Rightarrow> Inr item)"

definition serialize_prop :: "jsval \<Rightarrow> error + jsval" where
  "serialize_prop v =
     (case v of
        JDate d \<Rightarrow> toISOString d
      | JArr items \<Rightarrow> map_sum id JArr (map_items serialize_item items)
      | JObj ps \<Rightarrow> serializeForFirestore v
      | _ \<Rightarrow> Inr v)"

definition deserialize_item :: "(string \<Rightarrow> jsdate) \<Rightarrow> jsval \<Rightarrow> error + jsval" where
  "deserialize_item engine item =
     (case item of
        JStr s \<Rightarrow> Inr (if is_timestamp s then JDate (newDate engine s) else item)
      | JDate d \<Rightarrow> deserializeFromFirestore engine item
      | JArr xs \<Rightarrow> deserializeFromFirestore engine item
      | JObj ps \<Rightarrow> deserializeFromFirestore engine item
      | _ \<Rightarrow> Inr item)"

definition deserialize_prop :: "(string \<Rightarrow> jsdate) \<Rightarrow> jsval \<Rightarrow> error + jsval" where
  "deserialize_prop engine v =
     (case v of
        JStr s \<Rightarrow> Inr (if is_timestamp s then JDate (newDate engine s) else v)
      | JArr items \<Rightarrow> map_sum id JArr (map_items (deserialize_item engine) items)
      | JDate d \<Rightarrow> deserializeFromFirestore engine v
      | JObj ps \<Rightarrow> deserializeFromFirestore engine v
      | _ \<Rightarrow> Inr v)"

text \<open>
  The values that survive the codec. A string must not carry the timestamp prefix (the
  decoder would turn it into a \<^verbatim>\<open>Date\<close>); a \<^verbatim>\<open>Date\<close> must be a real instant of a
  year 0..9999 (the Invalid Date makes the encoder throw, the expanded year form is
  not recognised by the decoder); an array must not be an item of an array (the
  encoder turns it into an object with index keys); an object has each key once. The
  flag tells whether the value stands as an array item.
\<close>

fun codec_safe :: "bool \<Rightarrow> jsval \<Rightarrow> bool" where
  "codec_safe in_array (JStr s) = (\<not> is_timestamp s)"
| "codec_safe in_array (JDate d) = (valid_date d \<and> 0 \<le> year_of d \<and> year_of d \<le> 9999)"
| "codec_safe in_array (JArr xs) = (\<not> in_array \<and> (\<forall>x \<in> set xs. codec_safe True x))"
| "codec_safe in_array (JObj kvs) =
     (distinct (map fst kvs) \<and> (\<forall>kv \<in> set kvs. codec_safe False (snd kv)))"
| "codec_safe in_array v = True"

text \<open>The wire form of such a value: every \<^verbatim>\<open>Date\<close> replaced by its ISO string.\<close>

fun encoded :: "jsval \<Rightarrow> jsval" where
  "encoded (JDate d) = JStr (iso_string d)"
| "encoded (JArr xs) = JArr (map encoded xs)"
| "encoded (JObj kvs) = JObj (map (\<lambda>kv. (fst kv, encoded (snd kv))) kvs)"
| "encoded v = v"

text \<open>
  The loops of the codec do not copy a property named \<^verbatim>\<open>__proto__\<close>. \<open>no_proto\<close>: no
  object in the value has an own property of that name. \<open>without_proto\<close>: the value
  with these properties left out, at every depth.
\<close>

fun no_proto :: "jsval \<Rightarrow> bool" where
  "no_proto (JArr xs) = (\<forall>x \<in> set xs. no_proto x)"
| "no_proto (JObj kvs) = (\<forall>kv \<in> set kvs. fst kv \<noteq> ''__proto__'' \<and> no_proto (snd kv))"
| "no_proto v = True"

fun without_proto :: "jsval \<Rightarrow> jsval" where
  "without_proto (JArr xs) = JArr (map without_proto xs)"
| "without_proto (JObj kvs) =
     JObj (filter (\<lambda>kv. fst kv \<noteq> ''__proto__'') (map (\<lambda>kv. (fst kv, without_proto (snd kv))) kvs))"
| "without_proto v = v"

text \<open>An engine that reads no format but the one ECMAScript fixes.\<close>

definition strict_engine :: "string \<Rightarrow> jsdate" where
  "strict_engine s = InvalidDate"

section \<open>The local store (Dexie)\<close>

text \<open>
  The synchronised collections and the settings table (\<^verbatim>\<open>database.ts\<close>); every table
  has the key path \<^verbatim>\<open>id\<close>. A table is the list of its rows, primary key and stored
  object; \<^verbatim>\<open>toArray\<close> returns the objects in the order of the list.
\<close>

datatype coll = Foods | DailyLogs | MealPlans | Inventory | Recipes | Settings

fun coll_name :: "coll \<Rightarrow> string" where
  "coll_name Foods = ''foods''"
| "coll_name DailyLogs = ''dailyLogs''"
| "coll_name MealPlans = ''mealPlans''"
| "coll_name Inventory = ''inventory''"
| "coll_name Recipes = ''recipes''"
| "coll_name Settings = ''settings''"

type_synonym table = "(jsval \<times> jsval) list"

text \<open>The keys IndexedDB accepts: strings, numbers other than NaN, dates, arrays of keys.\<close>

fun valid_key :: "jsval \<Rightarrow> bool" where
  "valid_key (JStr s) = True"
| "valid_key (JNum n) = True"
| "valid_key (JDate d) = (d \<noteq> InvalidDate)"
| "valid_key (JArr xs) = (\<forall>x \<in> set xs. valid_key x)"
| "valid_key v = False"

text \<open>\<^verbatim>\<open>v.name\<close> for a value that is not \<^verbatim>\<open>null\<close> or \<^verbatim>\<open>undefined\<close>.\<close>

definition js_member :: "jsval \<Rightarrow> string \<Rightarrow> jsval" where
  "js_member v name = (case v of JObj kvs \<Rightarrow> get_prop kvs name | _ \<Rightarrow> JUndefined)"

definition table_get :: "table \<Rightarrow> jsval \<Rightarrow> jsval option" where
  "table_get t k = map_of t k"

fun table_put :: "table \<Rightarrow> jsval \<Rightarrow> jsval \<Rightarrow> table" where
  "table_put [] k obj = [(k, obj)]"
| "table_put ((k', old) # rest) k obj =
     (if k' = k then (k', obj) # rest else (k', old) # table_put rest k obj)"

definition table_delete :: "table \<Rightarrow> jsval \<Rightarrow> table" where
  "table_delete t k = filter (\<lambda>row. fst row \<noteq> k) t"

definition toArray :: "table \<Rightarrow> jsval list" where
  "toArray t = map snd t"

subsection \<open>Hooks and the calls they make\<close>

text \<open>
  \<^verbatim>\<open>table.hook("creating" | "updating" | "deleting", fn)\<close> subscribes \<open>fn\<close> for good:
  the service keeps no handle of a hook and never unsubscribes one. The three functions
  of lines 208-219 differ only in the table and in the \<^verbatim>\<open>userId\<close> their closure
  captured, so a subscription is the triple of table, kind and \<^verbatim>\<open>userId\<close>.

  What the service asks of the Firestore client is recorded in the order it is asked:
  single-document writes (\<^verbatim>\<open>setDoc\<close>, \<^verbatim>\<open>deleteDoc\<close>), the opening of a listener
  (\<^verbatim>\<open>onSnapshot\<close>, with the handle of its unsubscribe function) and its closing.
\<close>

datatype hook_kind = Creating | Updating | Deleting

datatype hook = Hook coll hook_kind string

datatype db_event =
    Created jsval jsval          \<comment> \<open>primKey, obj\<close>
  | Updated jsval jsval jsval    \<comment> \<open>modifications, primKey, obj (the stored object)\<close>
  | Deleted jsval                \<comment> \<open>primKey\<close>

datatype remote_call =
    SetDoc string coll string jsval
  | DeleteDoc string coll string
  | OnSnapshot nat string coll
  | Unsubscribe nat

text \<open>
  What the device supplies: the date parser of its engine, and Dexie's
  \<^verbatim>\<open>getObjectDiff\<close>, which computes the \<^verbatim>\<open>modifications\<close> an updating hook receives
  from the stored and the new object.
\<close>

record env =
  date_engine :: "string \<Rightarrow> jsdate"
  getObjectDiff :: "jsval \<Rightarrow> jsval \<Rightarrow> jsval"

text \<open>
  The state: the tables, the hook subscriptions, the two module variables of the
  service (lines 16-17), the listeners that are open at the Firestore client, the next
  fresh handle, and the calls made so far.
\<close>

record world =
  db :: "coll \<Rightarrow> table"
  hooks :: "hook list"
  syncListeners :: "nat list"
  currentUserId :: "string option"
  live :: "(nat \<times> string \<times> coll) list"
  next_handle :: nat
  calls :: "remote_call list"

text \<open>
  \<^verbatim>\<open>syncDocToFirestore\<close> (lines 172-180) and \<^verbatim>\<open>deleteDocFromFirestore\<close> (lines 182-189).
  \<^verbatim>\<open>doc(collection, docId)\<close> needs a string; the encoder may throw. Both are
  \<^verbatim>\<open>async\<close>, so either failure is a rejected promise. A document id is taken as
  Firestore has them, not empty and without \<^verbatim>\<open>/\<close>: what \<^verbatim>\<open>doc\<close> does with another
  string (it throws, or addresses a document further down the path) is not modelled. The
  result is the call the service makes; what the client then does with its data is not
  part of it.
\<close>

definition syncDocToFirestore :: "string \<Rightarrow> coll \<Rightarrow> jsval \<Rightarrow> jsval \<Rightarrow> error + remote_call" where
  "syncDocToFirestore userId collectionName docId d =
     (case docId of
        JStr i \<Rightarrow> (case serializeForFirestore d of
                     Inl e \<Rightarrow> Inl e
                   | Inr encoded_doc \<Rightarrow> Inr (SetDoc userId collectionName i encoded_doc))
      | _ \<Rightarrow> Inl FirebaseError)"

definition deleteDocFromFirestore :: "string \<Rightarrow> coll \<Rightarrow> jsval \<Rightarrow> error + remote_call" where
  "deleteDocFromFirestore userId collectionName docId =
     (case docId of JStr i \<Rightarrow> Inr (DeleteDoc userId collectionName i) | _ \<Rightarrow> Inl FirebaseError)"

text \<open>
  Object spread: \<^verbatim>\<open>{...a, ...b}\<close> defines the own properties of \<open>a\<close>, then those of
  \<open>b\<close>, on a new object (\<^verbatim>\<open>null\<close> and \<^verbatim>\<open>undefined\<close> have none).
\<close>

definition own_props :: "jsval \<Rightarrow> (string \<times> jsval) list" where
  "own_props v = (case object_entries v of Inl e \<Rightarrow> [] | Inr kvs \<Rightarrow> kvs)"

definition assign :: "(string \<times> jsval) list \<Rightarrow> (string \<times> jsval) list \<Rightarrow> (string \<times> jsval) list" where
  "assign acc kvs = foldl (\<lambda>a kv. define_prop a (fst kv) (snd kv)) acc kvs"

text \<open>\<^verbatim>\<open>.catch(console.error)\<close>: a rejected promise is logged, and no call is made.\<close>

definition caught :: "error + remote_call \<Rightarrow> remote_call list" where
  "caught r = (case r of Inl e \<Rightarrow> [] | Inr c \<Rightarrow> [c])"

text \<open>The hook functions of lines 208-219, for the subscription \<open>Hook t kind userId\<close>.\<close>

fun run_hook :: "hook \<Rightarrow> coll \<Rightarrow> db_event \<Rightarrow> remote_call list" where
  "run_hook (Hook t Creating userId) c (Created primKey obj) =
     (if t = c then caught (syncDocToFirestore userId c primKey obj) else [])"
| "run_hook (Hook t Updating userId) c (Updated modifications primKey obj) =
     (if t = c
      then caught (syncDocToFirestore userId c primKey
             (JObj (assign (assign [] (own_props obj)) (own_props modifications))))
      else [])"
| "run_hook (Hook t Deleting userId) c (Deleted primKey) =
     (if t = c then caught (deleteDocFromFirestore userId c primKey) else [])"
| "run_hook h c ev = []"

definition fire :: "hook list \<Rightarrow> coll \<Rightarrow> db_event \<Rightarrow> remote_call list" where
  "fire hs c ev = concat (map (\<lambda>h. run_hook h c ev) hs)"

text \<open>
  An operation on the state either completes or rejects with an error; in both cases
  it leaves a state behind.
\<close>

type_synonym outcome = "error option \<times> world"

definition and_then :: "outcome \<Rightarrow> (world \<Rightarrow> outcome) \<Rightarrow> outcome" where
  "and_then r f = (case r of (None, w) \<Rightarrow> f w | (Some e, w) \<Rightarrow> (Some e, w))"

text \<open>
  \<^verbatim>\<open>table.put(obj)\<close>: the key is \<^verbatim>\<open>obj.id\<close>; without a valid key the request fails.
  Dexie's hooks middleware reads the stored object first: none stored, the creating
  hooks run with the new object; one stored, the updating hooks run with the
  modifications and the stored object. \<^verbatim>\<open>table.delete(key)\<close> runs the deleting hooks
  for the key, stored or not.
\<close>

definition db_put :: "env \<Rightarrow> coll \<Rightarrow> jsval \<Rightarrow> world \<Rightarrow> outcome" where
  "db_put ev c obj w =
     (let k = js_member obj ''id'' in
      if \<not> valid_key k then (Some DataError, w)
      else
        let event = (case table_get (db w c) k of
                       None \<Rightarrow> Created k obj
                     | Some existing \<Rightarrow> Updated (getObjectDiff ev existing obj) k existing)
        in (None, w\<lparr>db := (db w)(c := table_put (db w c) k obj),
                     calls := calls w @ fire (hooks w) c event\<rparr>))"

definition db_delete :: "coll \<Rightarrow> jsval \<Rightarrow> world \<Rightarrow> outcome" where
  "db_delete c k w =
     (if \<not> valid_key k then (Some DataError, w)
      else (None, w\<lparr>db := (db w)(c := table_delete (db w c) k),
                     calls := calls w @ fire (hooks w) c (Deleted k)\<rparr>))"

section \<open>The Remote Reader\<close>

text \<open>
  JavaScript truthiness, and \<^verbatim>\<open>a > b\<close>. Two strings compare by their code units.
  Otherwise both operands become numbers: \<^verbatim>\<open>undefined\<close> and the Invalid Date are NaN,
  \<^verbatim>\<open>null\<close> is 0, a boolean 0 or 1, a \<^verbatim>\<open>Date\<close> its time value, and a comparison with NaN
  is false. The conversion of a string, an array or an object to a number is not
  modelled: such a comparison is reported as \<open>Unmodelled\<close>.
\<close>

fun truthy :: "jsval \<Rightarrow> bool" where
  "truthy JUndefined = False"
| "truthy JNull = False"
| "truthy (JBool b) = b"
| "truthy JNaN = False"
| "truthy (JNum n) = (n \<noteq> 0)"
| "truthy (JStr s) = (s \<noteq> [])"
| "truthy v = True"

fun str_lt :: "string \<Rightarrow> string \<Rightarrow> bool" where
  "str_lt [] [] = False"
| "str_lt [] (y # ys) = True"
| "str_lt (x # xs) [] = False"
| "str_lt (x # xs) (y # ys) =
     ((of_char x :: nat) < of_char y \<or> (x = y \<and> str_lt xs ys))"

fun numeric :: "jsval \<Rightarrow> bool" where
  "numeric (JStr s) = False"
| "numeric (JArr xs) = False"
| "numeric (JObj kvs) = False"
| "numeric v = True"

fun to_number :: "jsval \<Rightarrow> rat option" where
  "to_number JNull = Some 0"
| "to_number (JBool b) = Some (if b then 1 else 0)"
| "to_number (JNum n) = Some n"
| "to_number (JDate d) = map_option rat_of_int (time_value d)"
| "to_number v = None"

definition js_gt :: "jsval \<Rightarrow> jsval \<Rightarrow> bool option" where
  "js_gt a b =
     (case (a, b) of
        (JStr x, JStr y) \<Rightarrow> Some (str_lt y x)
      | _ \<Rightarrow> if numeric a \<and> numeric b
             then Some (case (to_number a, to_number b) of
                          (Some x, Some y) \<Rightarrow> y < x
                        | _ \<Rightarrow> False)
             else None)"

text \<open>
  The condition of line 237:
  \<^verbatim>\<open>!localDoc || (remoteUpdatedAt && localUpdatedAt && remoteUpdatedAt > localUpdatedAt)
  || (remoteUpdatedAt && !localUpdatedAt)\<close>.
\<close>

definition should_apply :: "jsval option \<Rightarrow> jsval \<Rightarrow> jsval \<Rightarrow> error + bool" where
  "should_apply localDoc remoteUpdatedAt localUpdatedAt =
     (if localDoc = None then Inr True
      else if truthy remoteUpdatedAt \<and> truthy localUpdatedAt
      then (case js_gt remoteUpdatedAt localUpdatedAt of
              None \<Rightarrow> Inl Unmodelled
            | Some g \<Rightarrow> Inr g)
      else Inr (truthy remoteUpdatedAt \<and> \<not> truthy localUpdatedAt))"

text \<open>
  The callback of lines 227-245 for one change of a snapshot: its type, the id of the
  document and the data of the document. The callbacks of the changes of one snapshot
  are \<^verbatim>\<open>async\<close> and nobody awaits them: an error in one is a rejected promise and
  stops nothing else. The model runs the callback of one change from its start to its
  end.
\<close>

datatype change_type = Added | Modified | Removed

definition on_change :: "env \<Rightarrow> coll \<Rightarrow> change_type \<times> string \<times> jsval \<Rightarrow> world \<Rightarrow> outcome" where
  "on_change ev name change w =
     (case change of (ctype, i, raw) \<Rightarrow>
       (case deserializeFromFirestore (date_engine ev) raw of
          Inl e \<Rightarrow> (Some e, w)
        | Inr d \<Rightarrow>
            if ctype = Added \<or> ctype = Modified then
              (let localDoc = table_get (db w name) (JStr i);
                   remoteUpdatedAt = js_member d ''updatedAt'';
                   localUpdatedAt = (case localDoc of None \<Rightarrow> JUndefined
                                     | Some l \<Rightarrow> js_member l ''updatedAt'')
               in (case should_apply localDoc remoteUpdatedAt localUpdatedAt of
                     Inl e \<Rightarrow> (Some e, w)
                   | Inr g \<Rightarrow> if g then db_put ev name d w else (None, w)))
            else if ctype = Removed then db_delete name (JStr i) w
            else (None, w)))"

section \<open>The session\<close>

text \<open>The tables of lines 198-204; the settings table is not among them.\<close>

definition tables :: "coll list" where
  "tables = [Foods, DailyLogs, MealPlans, Inventory, Recipes]"

text \<open>Calling the unsubscribe function with handle \<open>h\<close> closes that listener.\<close>

definition unsub :: "nat \<Rightarrow> world \<Rightarrow> world" where
  "unsub h w = w\<lparr>live := filter (\<lambda>l. fst l \<noteq> h) (live w), calls := calls w @ [Unsubscribe h]\<rparr>"

text \<open>\<^verbatim>\<open>stopRealtimeSync\<close> (lines 255-261).\<close>

definition stopRealtimeSync :: "world \<Rightarrow> world" where
  "stopRealtimeSync w =
     (foldl (\<lambda>w' h. unsub h w') w (syncListeners w))\<lparr>syncListeners := [], currentUserId := None\<rparr>"

text \<open>The three \<^verbatim>\<open>table.hook\<close> calls of one round of the loop of lines 206-220.\<close>

definition add_hooks :: "string \<Rightarrow> coll \<Rightarrow> world \<Rightarrow> world" where
  "add_hooks userId name w =
     w\<lparr>hooks := hooks w @ [Hook name Creating userId, Hook name Updating userId,
                           Hook name Deleting userId]\<rparr>"

text \<open>One round of the loop of lines 223-252: open the listener, keep its handle.\<close>

definition onSnapshot :: "string \<Rightarrow> coll \<Rightarrow> world \<Rightarrow> world" where
  "onSnapshot userId name w =
     w\<lparr>live := live w @ [(next_handle w, userId, name)],
       calls := calls w @ [OnSnapshot (next_handle w) userId name],
       syncListeners := syncListeners w @ [next_handle w],
       next_handle := Suc (next_handle w)\<rparr>"

text \<open>\<^verbatim>\<open>startRealtimeSync\<close> (lines 191-253).\<close>

definition startRealtimeSync :: "string \<Rightarrow> world \<Rightarrow> world" where
  "startRealtimeSync userId w =
     (if currentUserId w = Some userId then w
      else
        let w1 = stopRealtimeSync w;
            w2 = w1\<lparr>currentUserId := Some userId\<rparr>;
            w3 = foldl (\<lambda>w' name. add_hooks userId name w') w2 tables
        in foldl (\<lambda>w' name. onSnapshot userId name w') w3 tables)"

definition isSyncing :: "world \<Rightarrow> bool" where
  "isSyncing w = (currentUserId w \<noteq> None)"

text \<open>The Firestore client hands a change to the listener \<open>h\<close> only while it is open.\<close>

definition deliver :: "env \<Rightarrow> nat \<Rightarrow> change_type \<times> string \<times> jsval \<Rightarrow> world \<Rightarrow> outcome" where
  "deliver ev h change w =
     (case map_of (live w) h of
        None \<Rightarrow> (None, w)
      | Some (userId, name) \<Rightarrow> on_change ev name change w)"

text \<open>The state when the module is loaded, with empty tables.\<close>

definition initial :: world where
  "initial = \<lparr>db = (\<lambda>c. []), hooks = [], syncListeners = [], currentUserId = None,
             live = [], next_handle = 0, calls = []\<rparr>"

section \<open>Bulk transfer\<close>

text \<open>
  The remote store holds, for a user and a collection, the documents by id. A write
  batch is the list of the \<^verbatim>\<open>set\<close> operations added to it; \<^verbatim>\<open>commit\<close> applies all of
  them or, when it fails, none. The client checks the data of a \<^verbatim>\<open>set\<close> and throws
  when it refuses them (\<open>accepts\<close>: which data it takes depends on its configuration;
  \<open>firestore_client\<close> below is the client the repository builds), and a commit may
  fail for reasons of the network or of permissions (\<open>online\<close>).
\<close>

type_synonym remote = "string \<times> coll \<Rightarrow> (string \<times> jsval) list"

type_synonym batch = "((string \<times> coll \<times> string) \<times> jsval) list"

definition then_do :: "error + 'a \<Rightarrow> ('a \<Rightarrow> error + 'b) \<Rightarrow> error + 'b" where
  "then_do r f = (case r of Inl e \<Rightarrow> Inl e | Inr x \<Rightarrow> f x)"

text \<open>
  The client of the repository is \<^verbatim>\<open>getFirestore(app)\<close> (\<^verbatim>\<open>firebase.ts\<close>), with the
  settings of the library: \<^verbatim>\<open>ignoreUndefinedProperties\<close> is off. Of the checks it makes
  on the data of a \<^verbatim>\<open>set\<close>, these are the ones plain data can fail: the data are an
  object; no field value is \<^verbatim>\<open>undefined\<close>, as a property or as an array item; no array
  is directly an item of an array; no field name is empty or of the reserved form
  \<^verbatim>\<open>/^__.*__$/\<close>. The flag tells whether the value stands as an array item.
\<close>

definition reserved_name :: "string \<Rightarrow> bool" where
  "reserved_name s =
     (4 \<le> length s \<and> take 2 s = ''__'' \<and> drop (length s - 2) s = ''__''
      \<and> CHR 0x0A \<notin> set s \<and> CHR 0x0D \<notin> set s)"

fun firestore_value :: "bool \<Rightarrow> jsval \<Rightarrow> bool" where
  "firestore_value in_array JUndefined = False"
| "firestore_value in_array (JArr xs) = (\<not> in_array \<and> (\<forall>x \<in> set xs. firestore_value True x))"
| "firestore_value in_array (JObj kvs) =
     (\<forall>kv \<in> set kvs. fst kv \<noteq> [] \<and> \<not> reserved_name (fst kv) \<and> firestore_value False (snd kv))"
| "firestore_value in_array v = True"

definition firestore_client :: "jsval \<Rightarrow> bool" where
  "firestore_client doc = (case doc of JObj kvs \<Rightarrow> firestore_value False doc | _ \<Rightarrow> False)"

text \<open>
  \<^verbatim>\<open>batch.set(doc(getUserCollection(userId, name), docId), serializeForFirestore(d))\<close>.
  For the document id see \<open>syncDocToFirestore\<close>.
\<close>

definition batch_set ::
  "(jsval \<Rightarrow> bool) \<Rightarrow> string \<Rightarrow> coll \<Rightarrow> jsval \<Rightarrow> jsval \<Rightarrow> batch \<Rightarrow> error + batch" where
  "batch_set accepts userId name docId d b =
     (case docId of
        JStr i \<Rightarrow> then_do (serializeForFirestore d) (\<lambda>encoded_doc.
                   if accepts encoded_doc then Inr (b @ [((userId, name, i), encoded_doc)])
                   else Inl FirebaseError)
      | _ \<Rightarrow> Inl FirebaseError)"

text \<open>One of the five loops of lines 69-102.\<close>

fun upload_table ::
  "(jsval \<Rightarrow> bool) \<Rightarrow> string \<Rightarrow> coll \<Rightarrow> jsval list \<Rightarrow> batch \<Rightarrow> error + batch" where
  "upload_table accepts userId name [] b = Inr b"
| "upload_table accepts userId name (entity # rest) b =
     then_do (batch_set accepts userId name (js_member entity ''id'') entity b)
       (upload_table accepts userId name rest)"

text \<open>Lines 104-115: the settings record, with the two sensitive fields set to \<^verbatim>\<open>undefined\<close>.\<close>

definition upload_settings :: "(jsval \<Rightarrow> bool) \<Rightarrow> string \<Rightarrow> table \<Rightarrow> batch \<Rightarrow> error + batch" where
  "upload_settings accepts userId t b =
     (case table_get t (JStr ''user-settings'') of
        None \<Rightarrow> Inr b
      | Some settings \<Rightarrow>
          let settingsToSync =
                JObj (assign (assign [] (own_props settings))
                        [(''usdaApiKey'', JUndefined), (''aiConfig'', JUndefined)])
          in batch_set accepts userId Settings (js_member settings ''id'') settingsToSync b)"

text \<open>The batch of \<^verbatim>\<open>uploadAllData\<close> as it stands before line 117.\<close>

definition upload_batch :: "(jsval \<Rightarrow> bool) \<Rightarrow> string \<Rightarrow> (coll \<Rightarrow> table) \<Rightarrow> error + batch" where
  "upload_batch accepts userId d =
     then_do (upload_table accepts userId Foods (toArray (d Foods)) []) (\<lambda>b1.
     then_do (upload_table accepts userId DailyLogs (toArray (d DailyLogs)) b1) (\<lambda>b2.
     then_do (upload_table accepts userId MealPlans (toArray (d MealPlans)) b2) (\<lambda>b3.
     then_do (upload_table accepts userId Inventory (toArray (d Inventory)) b3) (\<lambda>b4.
     then_do (upload_table accepts userId Recipes (toArray (d Recipes)) b4) (\<lambda>b5.
     upload_settings accepts userId (d Settings) b5)))))"

fun set_doc :: "(string \<times> jsval) list \<Rightarrow> string \<Rightarrow> jsval \<Rightarrow> (string \<times> jsval) list" where
  "set_doc [] i d = [(i, d)]"
| "set_doc ((j, old) # rest) i d = (if j = i then (j, d) # rest else (j, old) # set_doc rest i d)"

definition apply_set :: "remote \<Rightarrow> (string \<times> coll \<times> string) \<times> jsval \<Rightarrow> remote" where
  "apply_set r wr =
     (case wr of ((userId, name, i), d) \<Rightarrow> r((userId, name) := set_doc (r (userId, name)) i d))"

definition commit :: "bool \<Rightarrow> batch \<Rightarrow> remote \<Rightarrow> error option \<times> remote" where
  "commit online b r = (if online then (None, foldl apply_set r b) else (Some FirebaseError, r))"

text \<open>\<^verbatim>\<open>uploadAllData\<close> (lines 66-118): the error, if any, and the remote store it leaves.\<close>

definition uploadAllData ::
  "(jsval \<Rightarrow> bool) \<Rightarrow> bool \<Rightarrow> string \<Rightarrow> (coll \<Rightarrow> table) \<Rightarrow> remote \<Rightarrow> error option \<times> remote" where
  "uploadAllData accepts online userId d r =
     (case upload_batch accepts userId d of
        Inl e \<Rightarrow> (Some e, r)
      | Inr b \<Rightarrow> commit online b r)"

text \<open>
  One of the five loops of lines 121-154, over the documents \<^verbatim>\<open>getDocs\<close> returned
  (the remote store \<open>r\<close> gives them; a \<^verbatim>\<open>getDocs\<close> that fails is not modelled). A put
  that fails ends the download; the puts before it stay.
\<close>

fun download_docs :: "env \<Rightarrow> coll \<Rightarrow> (string \<times> jsval) list \<Rightarrow> world \<Rightarrow> outcome" where
  "download_docs ev name [] w = (None, w)"
| "download_docs ev name (docSnap # rest) w =
     (case deserializeFromFirestore (date_engine ev) (snd docSnap) of
        Inl e \<Rightarrow> (Some e, w)
      | Inr entity \<Rightarrow> and_then (db_put ev name entity w) (download_docs ev name rest))"

text \<open>Lines 156-169: the first settings document, merged with the local sensitive fields.\<close>

definition download_settings :: "env \<Rightarrow> (string \<times> jsval) list \<Rightarrow> world \<Rightarrow> outcome" where
  "download_settings ev docs w =
     (case docs of
        [] \<Rightarrow> (None, w)
      | docSnap # rest \<Rightarrow>
          (case deserializeFromFirestore (date_engine ev) (snd docSnap) of
             Inl e \<Rightarrow> (Some e, w)
           | Inr remoteSettings \<Rightarrow>
               (case table_get (db w Settings) (JStr ''user-settings'') of
                  None \<Rightarrow> (None, w)
                | Some localSettings \<Rightarrow>
                    db_put ev Settings
                      (JObj (assign (assign [] (own_props remoteSettings))
                         [(''usdaApiKey'', js_member localSettings ''usdaApiKey''),
                          (''aiConfig'', js_member localSettings ''aiConfig'')])) w)))"

text \<open>\<^verbatim>\<open>downloadAllData\<close> (lines 120-170).\<close>

definition downloadAllData :: "env \<Rightarrow> string \<Rightarrow> remote \<Rightarrow> world \<Rightarrow> outcome" where
  "downloadAllData ev userId r w =
     and_then (download_docs ev Foods (r (userId, Foods)) w) (\<lambda>w1.
     and_then (download_docs ev DailyLogs (r (userId, DailyLogs)) w1) (\<lambda>w2.
     and_then (download_docs ev MealPlans (r (userId, MealPlans)) w2) (\<lambda>w3.
     and_then (download_docs ev Inventory (r (userId, Inventory)) w3) (\<lambda>w4.
     and_then (download_docs ev Recipes (r (userId, Recipes)) w4) (\<lambda>w5.
     download_settings ev (r (userId, Settings)) w5)))))"

text \<open>A device whose engine is \<open>strict_engine\<close> and whose object diff is the new object.\<close>

definition plain_env :: env where
  "plain_env = \<lparr>date_engine = strict_engine, getObjectDiff = (\<lambda>a b. b)\<rparr>"

section \<open>The vocabulary of the properties\<close>

text \<open>
  The entity type of the source gives \<^verbatim>\<open>updatedAt\<close> the type \<^verbatim>\<open>Date | undefined\<close>
  (the casts of lines 234-235).
\<close>

fun timestamp_or_absent :: "jsval \<Rightarrow> bool" where
  "timestamp_or_absent JUndefined = True"
| "timestamp_or_absent (JDate d) = True"
| "timestamp_or_absent v = False"

text \<open>
  Last write wins, in the words of the specification: the remote version is taken when
  there is no local copy, when the remote timestamp is strictly greater than the local
  one (as time values), or when the local copy has no timestamp and the remote one has.
\<close>

fun strictly_newer :: "jsval \<Rightarrow> jsval \<Rightarrow> bool" where
  "strictly_newer (JDate r) (JDate l) =
     (case (time_value r, time_value l) of (Some a, Some b) \<Rightarrow> b < a | _ \<Rightarrow> False)"
| "strictly_newer r l = False"

definition remote_wins :: "jsval option \<Rightarrow> jsval \<Rightarrow> bool" where
  "remote_wins localDoc d =
     (case localDoc of
        None \<Rightarrow> True
      | Some l \<Rightarrow>
          strictly_newer (js_member d ''updatedAt'') (js_member l ''updatedAt'')
          \<or> (js_member l ''updatedAt'' = JUndefined \<and> js_member d ''updatedAt'' \<noteq> JUndefined))"

text \<open>
  One session: the open listeners are the ones whose handles \<^verbatim>\<open>syncListeners\<close> holds,
  and they are one per table for the current user, or none when there is no user.
\<close>

definition session_ok :: "world \<Rightarrow> bool" where
  "session_ok w =
     (map fst (live w) = syncListeners w
      \<and> (case currentUserId w of
            None \<Rightarrow> live w = []
          | Some v \<Rightarrow> map snd (live w) = map (Pair v) tables))"

text \<open>
  Bulk download: the key under which a document is stored, whether it can be stored at
  all, and the rows a table ends with when one document after the other is put.
\<close>

definition entity_key :: "env \<Rightarrow> string \<times> jsval \<Rightarrow> jsval" where
  "entity_key ev docSnap =
     (case deserializeFromFirestore (date_engine ev) (snd docSnap) of
        Inl e \<Rightarrow> JUndefined
      | Inr d \<Rightarrow> js_member d ''id'')"

definition storable :: "env \<Rightarrow> string \<times> jsval \<Rightarrow> bool" where
  "storable ev docSnap =
     (case deserializeFromFirestore (date_engine ev) (snd docSnap) of
        Inl e \<Rightarrow> False
      | Inr d \<Rightarrow> valid_key (js_member d ''id''))"

definition put_all :: "env \<Rightarrow> table \<Rightarrow> (string \<times> jsval) list \<Rightarrow> table" where
  "put_all ev t docs =
     foldl (\<lambda>t' docSnap.
        case deserializeFromFirestore (date_engine ev) (snd docSnap) of
          Inl e \<Rightarrow> t'
        | Inr d \<Rightarrow> table_put t' (js_member d ''id'') d) t docs"

text \<open>The local settings record exists and has the sensitive fields of \<open>s\<close>.\<close>

definition keeps_sensitive :: "jsval \<Rightarrow> world \<Rightarrow> bool" where
  "keeps_sensitive s w =
     (case table_get (db w Settings) (JStr ''user-settings'') of
        None \<Rightarrow> False
      | Some s' \<Rightarrow> js_member s' ''usdaApiKey'' = js_member s ''usdaApiKey''
                  \<and> js_member s' ''aiConfig'' = js_member s ''aiConfig'')"

text \<open>Bulk upload: the write a batch holds for an entity.\<close>

definition written ::
  "(jsval \<Rightarrow> bool) \<Rightarrow> string \<Rightarrow> coll \<Rightarrow> jsval \<Rightarrow> (string \<times> coll \<times> string) \<times> jsval \<Rightarrow> bool" where
  "written accepts u c e wr =
     (case js_member e ''id'' of
        JStr i \<Rightarrow> (case serializeForFirestore e of
                     Inl x \<Rightarrow> False
                   | Inr doc \<Rightarrow> accepts doc \<and> wr = ((u, c, i), doc))
      | _ \<Rightarrow> False)"

subsection \<open>Examples\<close>

text \<open>
  A food as the device holds it, two versions of it as the remote store sends them (an
  hour older, an hour newer), the newer one decoded, a recipe, two settings records, a
  local database, the same without its settings record, a remote store, and a client
  that accepts every document.
\<close>

definition oats_local :: jsval where
  "oats_local = JObj [(''id'', JStr ''f1''), (''name'', JStr ''Oats''),
                      (''updatedAt'', JDate (UTC 2024 1 1 10 0 0 0))]"

definition wire_0900 :: jsval where
  "wire_0900 = JObj [(''id'', JStr ''f1''), (''name'', JStr ''Porridge''),
                       (''updatedAt'', JStr ''2024-01-01T09:00:00.000Z'')]"

definition wire_1100 :: jsval where
  "wire_1100 = JObj [(''id'', JStr ''f1''), (''name'', JStr ''Porridge''),
                       (''updatedAt'', JStr ''2024-01-01T11:00:00.000Z'')]"

definition porridge_1100 :: jsval where
  "porridge_1100 = JObj [(''id'', JStr ''f1''), (''name'', JStr ''Porridge''),
                    (''updatedAt'', JDate (UTC 2024 1 1 11 0 0 0))]"

definition porridge_0900 :: jsval where
  "porridge_0900 = JObj [(''id'', JStr ''f1''), (''name'', JStr ''Porridge''),
                          (''updatedAt'', JDate (UTC 2024 1 1 9 0 0 0))]"

definition rice :: jsval where
  "rice = JObj [(''id'', JStr ''f2''), (''name'', JStr ''Rice'')]"

definition two_foods :: world where
  "two_foods = initial\<lparr>db := (db initial)(Foods := [(JStr ''f1'', oats_local), (JStr ''f2'', rice)])\<rparr>"

definition with_food :: "jsval \<Rightarrow> world \<Rightarrow> world" where
  "with_food e w = w\<lparr>db := (db w)(Foods := [(js_member e ''id'', e)])\<rparr>"

definition soup :: jsval where
  "soup = JObj [(''id'', JStr ''r1''), (''name'', JStr ''Soup'')]"

definition my_settings :: jsval where
  "my_settings = JObj [(''id'', JStr ''user-settings''), (''theme'', JStr ''dark''),
                       (''usdaApiKey'', JStr ''KEY-123''),
                       (''aiConfig'', JObj [(''provider'', JStr ''openai''), (''apiKey'', JStr ''sk-1'')])]"

definition cloud_settings :: jsval where
  "cloud_settings = JObj [(''id'', JStr ''user-settings''), (''theme'', JStr ''light''),
                          (''usdaApiKey'', JStr ''KEY-999''),
                          (''aiConfig'', JObj [(''provider'', JStr ''gemini'')])]"

definition pantry :: "coll \<Rightarrow> table" where
  "pantry = (\<lambda>c. [])(Foods := [(JStr ''f1'', oats_local)], Recipes := [(JStr ''r1'', soup)],
                      Settings := [(JStr ''user-settings'', my_settings)])"

definition cloud :: remote where
  "cloud = (\<lambda>p. [])((''u1'', Foods) := [(''f1'', wire_0900)],
                      (''u1'', Settings) := [(''user-settings'', cloud_settings)])"

definition all_accepted :: "jsval \<Rightarrow> bool" where
  "all_accepted doc = True"

definition pantry_without_settings :: "coll \<Rightarrow> table" where
  "pantry_without_settings =
     (\<lambda>c. [])(Foods := [(JStr ''f1'', oats_local)], Recipes := [(JStr ''r1'', soup)])"

section \<open>Lemmas\<close>

subsection \<open>Digits, ISO strings and the timestamp pattern\<close>

lemma digit_val_digit_char: "digit_val (digit_char n) = Some (n mod 10)"
proof -
  have "n mod 10 < 10" by simp
  then consider "n mod 10 = 0" | "n mod 10 = 1" | "n mod 10 = 2" | "n mod 10 = 3" | "n mod 10 = 4"
    | "n mod 10 = 5" | "n mod 10 = 6" | "n mod 10 = 7" | "n mod 10 = 8" | "n mod 10 = 9"
    by atomize_elim arith
  then show ?thesis by cases (simp_all add: digit_char_def digit_val_def)
qed

lemma scan_digits_pad:
  "scan_digits w a (pad w n @ rest) = Some (a * 10 ^ w + n mod 10 ^ w, rest)"
proof (induction w arbitrary: a)
  case 0
  show ?case by simp
next
  case (Suc w)
  have "n mod (10 ^ w * 10) = 10 ^ w * (n div 10 ^ w mod 10) + n mod 10 ^ w"
    by (rule mod_mult2_eq)
  then show ?case by (simp add: digit_val_digit_char Suc.IH algebra_simps)
qed

lemma scan_digits_pad_exact:
  "n < 10 ^ w \<Longrightarrow> scan_digits w 0 (pad w n @ rest) = Some (n, rest)"
  by (simp add: scan_digits_pad)

lemma matches_prefix_pad:
  "matches_prefix (replicate w Digit @ ps) (pad w n @ rest) = matches_prefix ps rest"
  by (induction w) (simp_all add: digit_val_digit_char)

lemma matches_prefix_pad_end:
  "matches_prefix (replicate w Digit) (pad w n @ rest)"
  using matches_prefix_pad [of w "[]" n rest] by simp

lemma is_timestamp_iso_string:
  "0 \<le> y \<Longrightarrow> y \<le> 9999 \<Longrightarrow> is_timestamp (iso_string (UTC y mo dd h mi s ms))"
  unfolding is_timestamp_def timestamp_pattern_def iso_string_def
  by (simp add: matches_prefix_pad matches_prefix_pad_end del: replicate.simps pad.simps)

lemma valid_date_bounds:
  "valid_date (UTC y mo dd h mi s ms) \<Longrightarrow> mo < 10 ^ 2 \<and> dd < 10 ^ 2 \<and> h < 10 ^ 2 \<and> mi < 10 ^ 2 \<and> s < 10 ^ 2 \<and> ms < 10 ^ 3"
  by (auto simp: days_in_month_def split: if_splits)

lemma parse_iso_iso_string:
  assumes "valid_date (UTC y mo dd h mi s ms)" "0 \<le> y" "y \<le> 9999"
  shows "parse_iso (iso_string (UTC y mo dd h mi s ms)) = Some (UTC y mo dd h mi s ms)"
proof -
  have b: "mo < 10 ^ 2" "dd < 10 ^ 2" "h < 10 ^ 2" "mi < 10 ^ 2" "s < 10 ^ 2" "ms < 10 ^ 3"
    using valid_date_bounds [OF assms(1)] by simp_all
  have y: "nat y < 10 ^ 4" using assms(2,3) by simp
  show ?thesis
    unfolding parse_iso_def iso_string_def
    using assms
    by (simp add: scan_digits_pad_exact [OF y] scan_digits_pad_exact [OF b(1)] scan_digits_pad_exact [OF b(2)]
        scan_digits_pad_exact [OF b(3)] scan_digits_pad_exact [OF b(4)] scan_digits_pad_exact [OF b(5)]
        scan_digits_pad_exact [OF b(6)] del: pad.simps valid_date.simps)
qed

lemma pad_2: "pad 2 n = [digit_char (n div 10), digit_char n]"
  by (simp add: numeral_2_eq_2)

lemma pad_3: "pad 3 n = [digit_char (n div 100), digit_char (n div 10), digit_char n]"
  by (simp add: numeral_3_eq_3)

lemma pad_4:
  "pad 4 n = [digit_char (n div 1000), digit_char (n div 100), digit_char (n div 10), digit_char n]"
proof -
  have "(4::nat) = Suc 3" by simp
  then have "pad 4 n = digit_char (n div 10 ^ 3) # pad 3 n" by (simp only: pad.simps)
  then show ?thesis by (simp add: pad_3)
qed

lemma iso_string_four_digit_year:
  "0 \<le> y \<Longrightarrow> y \<le> 9999 \<Longrightarrow>
   iso_string (UTC y mo dd h mi s ms) =
     pad 4 (nat y) @ ''-'' @ pad 2 mo @ ''-'' @ pad 2 dd @ ''T'' @ pad 2 h @ '':'' @ pad 2 mi
        @ '':'' @ pad 2 s @ ''.'' @ pad 3 ms @ ''Z''"
  by (simp add: iso_string_def)

subsection \<open>The codec\<close>

lemma serializeForFirestore_unfold:
  "serializeForFirestore d =
     (case object_entries d of
        Inl e \<Rightarrow> Inl e
      | Inr kvs \<Rightarrow> map_sum id JObj (for_entries serialize_prop kvs []))"
  unfolding serialize_prop_def [abs_def] serialize_item_def [abs_def]
  by (rule serializeForFirestore.simps)

lemma deserializeFromFirestore_unfold:
  "deserializeFromFirestore engine d =
     (case object_entries d of
        Inl e \<Rightarrow> Inl e
      | Inr kvs \<Rightarrow> map_sum id JObj (for_entries (deserialize_prop engine) kvs []))"
  unfolding deserialize_prop_def [abs_def] deserialize_item_def [abs_def]
  by (rule deserializeFromFirestore.simps)

lemma define_prop_fresh: "k \<notin> fst ` set acc \<Longrightarrow> define_prop acc k v = acc @ [(k, v)]"
  by (induction acc) auto

lemma set_prop_fresh:
  "k \<noteq> ''__proto__'' \<Longrightarrow> k \<notin> fst ` set acc \<Longrightarrow> set_prop acc k v = acc @ [(k, v)]"
  by (simp add: set_prop_def define_prop_fresh)

lemma set_prop_proto: "set_prop acc ''__proto__'' v = acc"
  by (simp add: set_prop_def)

lemma for_entries_all:
  "distinct (map fst kvs) \<Longrightarrow> fst ` set kvs \<inter> fst ` set acc = {}
     \<Longrightarrow> (\<And>k v. (k, v) \<in> set kvs \<Longrightarrow> f v = Inr (g v))
     \<Longrightarrow> for_entries f kvs acc
           = Inr (acc @ map (\<lambda>kv. (fst kv, g (snd kv))) (filter (\<lambda>kv. fst kv \<noteq> ''__proto__'') kvs))"
proof (induction kvs arbitrary: acc)
  case Nil
  show ?case by simp
next
  case (Cons kv rest)
  obtain k v where kv: "kv = (k, v)" by (cases kv)
  have fv: "f v = Inr (g v)" using Cons.prems(3) [of k v] kv by simp
  have rest: "for_entries f rest a
      = Inr (a @ map (\<lambda>kv. (fst kv, g (snd kv))) (filter (\<lambda>kv. fst kv \<noteq> ''__proto__'') rest))"
    if "fst ` set rest \<inter> fst ` set a = {}" for a
  proof (rule Cons.IH)
    show "distinct (map fst rest)" using Cons.prems(1) by simp
    show "fst ` set rest \<inter> fst ` set a = {}" by (rule that)
    fix k' v' assume "(k', v') \<in> set rest"
    then show "f v' = Inr (g v')" using Cons.prems(3) [of k' v'] by simp
  qed
  show ?case
  proof (cases "k = ''__proto__''")
    case True
    have "fst ` set rest \<inter> fst ` set acc = {}" using Cons.prems(2) by auto
    from rest [OF this] show ?thesis using kv fv True by (simp add: set_prop_proto)
  next
    case False
    have fresh: "k \<notin> fst ` set acc" using Cons.prems(2) kv by auto
    have step: "set_prop acc k (g v) = acc @ [(k, g v)]" using False fresh by (rule set_prop_fresh)
    have "fst ` set rest \<inter> fst ` set (acc @ [(k, g v)]) = {}" using Cons.prems(1,2) kv by auto
    from rest [OF this] show ?thesis using kv fv step False by simp
  qed
qed

lemma map_items_all:
  "(\<And>x. x \<in> set xs \<Longrightarrow> f x = Inr (g x)) \<Longrightarrow> map_items f xs = Inr (map g xs)"
  by (induction xs) simp_all

lemma without_proto_obj:
  "without_proto (JObj kvs)
     = JObj (map (\<lambda>kv. (fst kv, without_proto (snd kv))) (filter (\<lambda>kv. fst kv \<noteq> ''__proto__'') kvs))"
  by (simp add: filter_map comp_def)

lemma serialize_encoded:
  "(codec_safe False x \<longrightarrow> serialize_prop x = Inr (encoded (without_proto x)))
   \<and> (codec_safe True x \<longrightarrow> serialize_item x = Inr (encoded (without_proto x)))"
proof (induction x)
  case (JDate d)
  show ?case by (auto simp: serialize_prop_def serialize_item_def toISOString_def)
next
  case (JArr xs)
  have "map_items serialize_item xs = Inr (map (\<lambda>x. encoded (without_proto x)) xs)"
    if "\<forall>x \<in> set xs. codec_safe True x"
    by (rule map_items_all) (use JArr that in blast)
  then show ?case by (simp add: serialize_prop_def comp_def)
next
  case (JObj kvs)
  have "for_entries serialize_prop kvs []
      = Inr ([] @ map (\<lambda>kv. (fst kv, encoded (without_proto (snd kv))))
                    (filter (\<lambda>kv. fst kv \<noteq> ''__proto__'') kvs))"
    if d: "distinct (map fst kvs)" and s: "\<forall>kv \<in> set kvs. codec_safe False (snd kv)"
  proof (rule for_entries_all)
    show "distinct (map fst kvs)" by (rule d)
    show "fst ` set kvs \<inter> fst ` set [] = {}" by simp
    fix k v assume m: "(k, v) \<in> set kvs"
    then have "codec_safe False v" using s by force
    moreover have "v \<in> Basic_BNFs.snds (k, v)" by simp
    ultimately show "serialize_prop v = Inr (encoded (without_proto v))" using JObj m by blast
  qed
  then show ?case
    unfolding without_proto_obj
    by (simp add: serialize_prop_def serialize_item_def serializeForFirestore_unfold comp_def)
qed (simp_all add: serialize_prop_def serialize_item_def)

lemma without_proto_safe: "codec_safe b x \<Longrightarrow> codec_safe b (without_proto x)"
proof (induction x arbitrary: b)
  case (JArr xs)
  then show ?case by auto
next
  case (JObj kvs)
  have "distinct (map fst (filter (\<lambda>kv. fst kv \<noteq> ''__proto__'') kvs))"
    using JObj.prems by (simp add: distinct_map_filter)
  moreover have "codec_safe False (without_proto (snd kv))" if "kv \<in> set kvs" for kv
  proof -
    have "snd kv \<in> Basic_BNFs.snds kv" by (cases kv) simp
    moreover have "codec_safe False (snd kv)" using JObj.prems that by simp
    ultimately show ?thesis using JObj.IH that by blast
  qed
  ultimately show ?case unfolding without_proto_obj by (simp add: comp_def)
qed simp_all

lemma without_proto_no_proto: "no_proto (without_proto x)"
proof (induction x)
  case (JObj kvs)
  have "no_proto (without_proto (snd kv))" if "kv \<in> set kvs" for kv
  proof -
    have "snd kv \<in> Basic_BNFs.snds kv" by (cases kv) simp
    then show ?thesis using JObj that by blast
  qed
  then show ?case unfolding without_proto_obj by simp
qed simp_all

lemma without_proto_id: "no_proto x \<Longrightarrow> without_proto x = x"
proof (induction x)
  case (JArr xs)
  then show ?case by (simp add: map_idI)
next
  case (JObj kvs)
  have "(fst kv, without_proto (snd kv)) = kv" if "kv \<in> set kvs" for kv
  proof -
    have "snd kv \<in> Basic_BNFs.snds kv" by (cases kv) simp
    moreover have "no_proto (snd kv)" using JObj.prems that by simp
    ultimately have "without_proto (snd kv) = snd kv" using JObj.IH that by blast
    then show ?thesis by simp
  qed
  moreover have "filter (\<lambda>kv. fst kv \<noteq> ''__proto__'') kvs = kvs" using JObj.prems by (simp add: filter_id_conv)
  ultimately show ?case unfolding without_proto_obj by (simp add: map_idI)
qed simp_all

lemma member_without_proto:
  "k \<noteq> ''__proto__'' \<Longrightarrow> js_member (without_proto (JObj kvs)) k = without_proto (get_prop kvs k)"
  by (induction kvs) (auto simp: js_member_def)

lemma newDate_iso_string:
  "valid_date d \<Longrightarrow> 0 \<le> year_of d \<Longrightarrow> year_of d \<le> 9999 \<Longrightarrow> newDate engine (iso_string d) = d"
  by (cases d) (simp_all add: newDate_def parse_iso_iso_string del: valid_date.simps(2))

lemma is_timestamp_iso:
  "valid_date d \<Longrightarrow> 0 \<le> year_of d \<Longrightarrow> year_of d \<le> 9999 \<Longrightarrow> is_timestamp (iso_string d)"
  by (cases d) (simp_all add: is_timestamp_iso_string del: valid_date.simps(2))

lemma deserialize_encoded:
  "(codec_safe False x \<and> no_proto x \<longrightarrow> deserialize_prop engine (encoded x) = Inr x)
   \<and> (codec_safe True x \<and> no_proto x \<longrightarrow> deserialize_item engine (encoded x) = Inr x)"
proof (induction x)
  case (JDate d)
  show ?case
    by (auto simp: deserialize_prop_def deserialize_item_def newDate_iso_string is_timestamp_iso)
next
  case (JArr xs)
  have "map_items (deserialize_item engine) (map encoded xs) = Inr (map (\<lambda>x. x) xs)"
    if "\<forall>x \<in> set xs. codec_safe True x \<and> no_proto x"
    using JArr that by (induction xs) simp_all
  then show ?case by (simp add: deserialize_prop_def)
next
  case (JObj kvs)
  let ?enc = "map (\<lambda>kv. (fst kv, encoded (snd kv))) kvs"
  have "for_entries (deserialize_prop engine) ?enc [] = Inr kvs"
    if d: "distinct (map fst kvs)" and s: "\<forall>kv \<in> set kvs. codec_safe False (snd kv)"
      and n: "\<forall>kv \<in> set kvs. fst kv \<noteq> ''__proto__'' \<and> no_proto (snd kv)"
  proof -
    have "for_entries (deserialize_prop engine) (map (\<lambda>kv. (fst kv, encoded (snd kv))) ps) acc
            = Inr (acc @ ps)"
      if "set ps \<subseteq> set kvs" "distinct (map fst ps)" "fst ` set ps \<inter> fst ` set acc = {}"
      for ps acc
      using that
    proof (induction ps arbitrary: acc)
      case Nil
      show ?case by simp
    next
      case (Cons p ps)
      obtain k v where p: "p = (k, v)" by (cases p)
      have m: "(k, v) \<in> set kvs" using Cons.prems(1) p by simp
      then have "codec_safe False v" "no_proto v" using s n by force+
      moreover have "v \<in> Basic_BNFs.snds (k, v)" by simp
      ultimately have dv: "deserialize_prop engine (encoded v) = Inr v" using JObj m by blast
      have named: "k \<noteq> ''__proto__''" using n m by force
      have fresh: "k \<notin> fst ` set acc" using Cons.prems(3) p by auto
      have "for_entries (deserialize_prop engine) (map (\<lambda>kv. (fst kv, encoded (snd kv))) ps)
              (acc @ [(k, v)]) = Inr ((acc @ [(k, v)]) @ ps)"
        by (rule Cons.IH) (use Cons.prems p in auto)
      then show ?case using p dv set_prop_fresh [OF named fresh] by simp
    qed
    from this [of kvs "[]"] d show ?thesis by simp
  qed
  then show ?case
    by (simp add: deserialize_prop_def deserialize_item_def deserializeFromFirestore_unfold)
qed (simp_all add: deserialize_prop_def deserialize_item_def)

lemma serialize_stripped:
  "codec_safe False (JObj kvs)
     \<Longrightarrow> serializeForFirestore (JObj kvs) = Inr (encoded (without_proto (JObj kvs)))"
proof -
  assume "codec_safe False (JObj kvs)"
  then have "serialize_prop (JObj kvs) = Inr (encoded (without_proto (JObj kvs)))"
    using serialize_encoded by blast
  then show ?thesis by (simp add: serialize_prop_def)
qed

lemma serialize_safe:
  "codec_safe False (JObj kvs) \<Longrightarrow> no_proto (JObj kvs)
     \<Longrightarrow> serializeForFirestore (JObj kvs) = Inr (encoded (JObj kvs))"
proof -
  assume safe: "codec_safe False (JObj kvs)" and "no_proto (JObj kvs)"
  then have "without_proto (JObj kvs) = JObj kvs" by (intro without_proto_id)
  then show ?thesis using serialize_stripped [OF safe] by (simp only:)
qed

lemma deserialize_safe:
  "codec_safe False (JObj kvs) \<Longrightarrow> no_proto (JObj kvs)
     \<Longrightarrow> deserializeFromFirestore engine (encoded (JObj kvs)) = Inr (JObj kvs)"
proof -
  assume "codec_safe False (JObj kvs)" "no_proto (JObj kvs)"
  then have "deserialize_prop engine (encoded (JObj kvs)) = Inr (JObj kvs)"
    using deserialize_encoded by blast
  then show ?thesis by (simp add: deserialize_prop_def)
qed

text \<open>What comes back from the codec is the value without its \<^verbatim>\<open>__proto__\<close> properties.\<close>

lemma round_trip_stripped:
  assumes "codec_safe False (JObj kvs)"
  shows "round_trip engine (JObj kvs) = Inr (without_proto (JObj kvs))"
proof -
  obtain ps where ps: "without_proto (JObj kvs) = JObj ps" by simp
  have "codec_safe False (JObj ps)" using without_proto_safe [OF assms] by (simp only: ps)
  moreover have "no_proto (JObj ps)" using without_proto_no_proto [of "JObj kvs"] by (simp only: ps)
  ultimately have "deserializeFromFirestore engine (encoded (JObj ps)) = Inr (JObj ps)"
    by (rule deserialize_safe)
  moreover have "serializeForFirestore (JObj kvs) = Inr (encoded (JObj ps))"
    using serialize_stripped [OF assms] by (simp only: ps)
  ultimately show ?thesis by (simp add: round_trip_def ps del: encoded.simps without_proto.simps)
qed

text \<open>The decoder never throws on a document.\<close>

lemma for_entries_total:
  "(\<And>k v. (k, v) \<in> set kvs \<Longrightarrow> \<exists>r. f v = Inr r) \<Longrightarrow> \<exists>r. for_entries f kvs acc = Inr r"
proof (induction kvs arbitrary: acc)
  case Nil
  show ?case by simp
next
  case (Cons kv rest)
  obtain k v where kv: "kv = (k, v)" by (cases kv)
  obtain r where r: "f v = Inr r" using Cons.prems [of k v] kv by auto
  have "\<exists>r'. for_entries f rest (set_prop acc k r) = Inr r'"
  proof (rule Cons.IH)
    fix k' v' assume "(k', v') \<in> set rest"
    then show "\<exists>r. f v' = Inr r" using Cons.prems [of k' v'] by simp
  qed
  then show ?case using kv r by simp
qed

lemma map_items_total:
  "(\<And>x. x \<in> set xs \<Longrightarrow> \<exists>r. f x = Inr r) \<Longrightarrow> \<exists>r. map_items f xs = Inr r"
proof (induction xs)
  case Nil
  show ?case by simp
next
  case (Cons x xs)
  obtain r where r: "f x = Inr r" using Cons.prems [of x] by auto
  obtain rs where rs: "map_items f xs = Inr rs" using Cons by auto
  show ?case using r rs by simp
qed

lemma deserialize_entries_total:
  assumes "\<And>k v. (k, v) \<in> set kvs \<Longrightarrow> \<exists>r. deserialize_prop engine v = Inr r"
    and "object_entries d = Inr kvs"
  shows "\<exists>r. deserializeFromFirestore engine d = Inr (JObj r)"
proof -
  obtain r where "for_entries (deserialize_prop engine) kvs [] = Inr r"
    using for_entries_total [of kvs "deserialize_prop engine" "[]"] assms(1) by blast
  then show ?thesis using assms(2) by (simp add: deserializeFromFirestore_unfold)
qed

lemma deserialize_prop_total:
  "(\<exists>r. deserialize_prop engine x = Inr r) \<and> (\<exists>r. deserialize_item engine x = Inr r)"
proof (induction x)
  case (JArr xs)
  have items: "\<exists>r. map_items (deserialize_item engine) xs = Inr r"
    by (rule map_items_total) (use JArr in blast)
  have "\<exists>r. deserializeFromFirestore engine (JArr xs) = Inr (JObj r)"
  proof (rule deserialize_entries_total)
    show "object_entries (JArr xs) = Inr (index_entries 0 xs)" by simp
    fix k v assume "(k, v) \<in> set (index_entries 0 xs)"
    then have "v \<in> set xs" by (rule index_entries_values)
    then show "\<exists>r. deserialize_prop engine v = Inr r" using JArr by blast
  qed
  then show ?case using items by (auto simp: deserialize_prop_def deserialize_item_def)
next
  case (JObj kvs)
  have "\<exists>r. deserializeFromFirestore engine (JObj kvs) = Inr (JObj r)"
  proof (rule deserialize_entries_total)
    show "object_entries (JObj kvs) = Inr kvs" by simp
    fix k v assume m: "(k, v) \<in> set kvs"
    moreover have "v \<in> Basic_BNFs.snds (k, v)" by simp
    ultimately show "\<exists>r. deserialize_prop engine v = Inr r" using JObj by blast
  qed
  then show ?case by (auto simp: deserialize_prop_def deserialize_item_def)
next
  case (JDate d)
  have "deserializeFromFirestore engine (JDate d) = Inr (JObj [])"
    by (simp add: deserializeFromFirestore_unfold)
  then show ?case by (simp add: deserialize_prop_def deserialize_item_def)
qed (simp_all add: deserialize_prop_def deserialize_item_def)

lemma deserialize_object_total:
  "\<exists>r. deserializeFromFirestore engine (JObj kvs) = Inr (JObj r)"
proof (rule deserialize_entries_total)
  show "object_entries (JObj kvs) = Inr kvs" by simp
  fix k v show "\<exists>r. deserialize_prop engine v = Inr r" using deserialize_prop_total by blast
qed

text \<open>Properties that are \<^verbatim>\<open>undefined\<close> stay so in the encoded object.\<close>

lemma get_define_prop:
  "get_prop (define_prop kvs k v) k' = (if k' = k then v else get_prop kvs k')"
  by (induction kvs) auto

lemma define_prop_keys: "fst ` set (define_prop kvs k v) = insert k (fst ` set kvs)"
  by (induction kvs) force+

lemma define_prop_distinct:
  "distinct (map fst kvs) \<Longrightarrow> distinct (map fst (define_prop kvs k v))"
  by (induction kvs) (auto simp: define_prop_keys)

lemma assign_distinct: "distinct (map fst acc) \<Longrightarrow> distinct (map fst (assign acc kvs))"
  unfolding assign_def by (induction kvs arbitrary: acc) (simp_all add: define_prop_distinct)

lemma get_prop_filter:
  "get_prop (filter (\<lambda>kv. fst kv \<noteq> p) kvs) k = (if k = p then JUndefined else get_prop kvs k)"
  by (induction kvs) auto

lemma merged_fields:
  "get_prop (assign acc [(''usdaApiKey'', a), (''aiConfig'', b)]) ''usdaApiKey'' = a"
  "get_prop (assign acc [(''usdaApiKey'', a), (''aiConfig'', b)]) ''aiConfig'' = b"
  by (simp_all add: assign_def get_define_prop)

lemma for_entries_Inr:
  "for_entries f kvs acc = Inr r \<Longrightarrow> distinct (map fst kvs) \<Longrightarrow> fst ` set kvs \<inter> fst ` set acc = {}
   \<Longrightarrow> \<exists>kws. list_all2 (\<lambda>kv kw. fst kw = fst kv \<and> f (snd kv) = Inr (snd kw))
               (filter (\<lambda>kv. fst kv \<noteq> ''__proto__'') kvs) kws \<and> r = acc @ kws"
proof (induction kvs arbitrary: acc)
  case Nil
  then show ?case by simp
next
  case (Cons kv rest)
  obtain k v where kv: "kv = (k, v)" by (cases kv)
  from Cons.prems(1) kv obtain x where x: "f v = Inr x"
    and rest: "for_entries f rest (set_prop acc k x) = Inr r"
    by (auto split: sum.splits)
  show ?case
  proof (cases "k = ''__proto__''")
    case True
    have "\<exists>kws. list_all2 (\<lambda>kv kw. fst kw = fst kv \<and> f (snd kv) = Inr (snd kw))
              (filter (\<lambda>kv. fst kv \<noteq> ''__proto__'') rest) kws \<and> r = acc @ kws"
    proof (rule Cons.IH)
      show "for_entries f rest acc = Inr r" using rest True by (simp add: set_prop_proto)
      show "distinct (map fst rest)" using Cons.prems(2) by simp
      show "fst ` set rest \<inter> fst ` set acc = {}" using Cons.prems(3) by auto
    qed
    then show ?thesis using True kv by simp
  next
    case False
    have fresh: "k \<notin> fst ` set acc" using Cons.prems(3) kv by auto
    have sp: "set_prop acc k x = acc @ [(k, x)]" using False fresh by (rule set_prop_fresh)
    have "\<exists>kws. list_all2 (\<lambda>kv kw. fst kw = fst kv \<and> f (snd kv) = Inr (snd kw))
              (filter (\<lambda>kv. fst kv \<noteq> ''__proto__'') rest) kws
            \<and> r = (acc @ [(k, x)]) @ kws"
    proof (rule Cons.IH)
      show "for_entries f rest (acc @ [(k, x)]) = Inr r" using rest sp by simp
      show "distinct (map fst rest)" using Cons.prems(2) by simp
      show "fst ` set rest \<inter> fst ` set (acc @ [(k, x)]) = {}" using Cons.prems(2,3) kv by auto
    qed
    then obtain kws where
      kws: "list_all2 (\<lambda>kv kw. fst kw = fst kv \<and> f (snd kv) = Inr (snd kw))
              (filter (\<lambda>kv. fst kv \<noteq> ''__proto__'') rest) kws"
      "r = (acc @ [(k, x)]) @ kws" by blast
    have "list_all2 (\<lambda>kv kw. fst kw = fst kv \<and> f (snd kv) = Inr (snd kw))
            (filter (\<lambda>kv. fst kv \<noteq> ''__proto__'') (kv # rest)) ((k, x) # kws)"
      using kws(1) kv x False by simp
    moreover have "r = acc @ ((k, x) # kws)" using kws(2) by simp
    ultimately show ?thesis by blast
  qed
qed

lemma undefined_survives:
  "list_all2 (\<lambda>kv kw. fst kw = fst kv \<and> serialize_prop (snd kv) = Inr (snd kw)) kvs kws \<Longrightarrow>
   get_prop kvs k = JUndefined \<Longrightarrow> get_prop kws k = JUndefined"
proof (induction rule: list_all2_induct)
  case Nil
  then show ?case by simp
next
  case (Cons kv kvs kw kws)
  obtain a v where kv: "kv = (a, v)" by (cases kv)
  obtain a' x where kw: "kw = (a', x)" by (cases kw)
  show ?case
  proof (cases "a = k")
    case True
    then have "v = JUndefined" using Cons.prems kv by simp
    then have "x = JUndefined" using Cons.hyps(1) kv kw by (simp add: serialize_prop_def)
    then show ?thesis using True Cons.hyps(1) kv kw by simp
  next
    case False
    then show ?thesis using Cons kv kw by simp
  qed
qed

lemma serialize_keeps_undefined:
  assumes "serializeForFirestore (JObj kvs) = Inr doc" "distinct (map fst kvs)"
    "get_prop kvs k = JUndefined"
  shows "js_member doc k = JUndefined"
proof -
  from assms(1) obtain r where r: "for_entries serialize_prop kvs [] = Inr r" and doc: "doc = JObj r"
    by (cases "for_entries serialize_prop kvs []") (auto simp: serializeForFirestore_unfold)
  from for_entries_Inr [OF r assms(2)] obtain kws where
    "list_all2 (\<lambda>kv kw. fst kw = fst kv \<and> serialize_prop (snd kv) = Inr (snd kw))
       (filter (\<lambda>kv. fst kv \<noteq> ''__proto__'') kvs) kws" "r = kws"
    by auto
  moreover have "get_prop (filter (\<lambda>kv. fst kv \<noteq> ''__proto__'') kvs) k = JUndefined"
    using assms(3) by (simp add: get_prop_filter)
  ultimately show ?thesis using undefined_survives doc by (simp add: js_member_def)
qed

subsection \<open>Tables, puts and hooks\<close>

lemma table_get_put:
  "table_get (table_put t k obj) k' = (if k' = k then Some obj else table_get t k')"
  by (induction t) (auto simp: table_get_def)

lemma table_get_delete:
  "table_get (table_delete t k) k' = (if k' = k then None else table_get t k')"
  by (induction t) (auto simp: table_get_def table_delete_def)

lemma and_then_None: "fst r = None \<Longrightarrow> and_then r f = f (snd r)"
  by (cases r) (simp add: and_then_def)

lemma and_then_Some: "fst r = Some e \<Longrightarrow> and_then r f = r"
  by (cases r) (simp add: and_then_def)

lemma and_then_preserves:
  assumes "P (snd r)" and "\<And>w'. P w' \<Longrightarrow> P (snd (f w'))"
  shows "P (snd (and_then r f))"
proof (cases "fst r")
  case None
  then show ?thesis using assms by (simp add: and_then_None)
next
  case (Some e)
  then show ?thesis using assms(1) by (simp add: and_then_Some)
qed

lemma db_put_other: "c' \<noteq> c \<Longrightarrow> db (snd (db_put ev c obj w)) c' = db w c'"
  by (simp add: db_put_def Let_def)

lemma db_put_ok:
  "valid_key (js_member obj ''id'') \<Longrightarrow>
   fst (db_put ev c obj w) = None
   \<and> db (snd (db_put ev c obj w)) c = table_put (db w c) (js_member obj ''id'') obj"
  by (simp add: db_put_def Let_def)

lemma put_calls_created:
  "valid_key (js_member obj ''id'') \<Longrightarrow> table_get (db w c) (js_member obj ''id'') = None \<Longrightarrow>
   calls (snd (db_put ev c obj w)) = calls w @ fire (hooks w) c (Created (js_member obj ''id'') obj)"
  by (simp add: db_put_def Let_def)

lemma fire_member:
  "h \<in> set hs \<Longrightarrow> x \<in> set (run_hook h c ev) \<Longrightarrow> x \<in> set (fire hs c ev)"
  by (auto simp: fire_def)

subsection \<open>The conflict rule\<close>

lemma should_apply_typed:
  assumes "timestamp_or_absent r" "timestamp_or_absent lu"
  shows "should_apply (Some l) r lu = Inr (strictly_newer r lu \<or> (lu = JUndefined \<and> r \<noteq> JUndefined))"
proof (cases r)
  case JUndefined
  then show ?thesis by (simp add: should_apply_def)
next
  case rd: (JDate a)
  show ?thesis
  proof (cases lu)
    case JUndefined
    then show ?thesis using rd by (simp add: should_apply_def)
  next
    case (JDate b)
    then show ?thesis using rd
      by (cases "time_value a"; cases "time_value b") (simp_all add: should_apply_def js_gt_def)
  qed (use assms in simp_all)
qed (use assms in simp_all)

lemma strictly_newer_irrefl: "\<not> strictly_newer r r"
proof (cases r)
  case (JDate d)
  then show ?thesis by (cases "time_value d") simp_all
qed simp_all

subsection \<open>Start and stop\<close>

lemma foldl_unsub:
  "foldl (\<lambda>w' h. unsub h w') w hs =
     w\<lparr>live := filter (\<lambda>l. fst l \<notin> set hs) (live w), calls := calls w @ map Unsubscribe hs\<rparr>"
proof (induction hs arbitrary: w)
  case Nil
  show ?case by simp
next
  case (Cons h hs)
  have "filter (\<lambda>l. fst l \<notin> set hs) (filter (\<lambda>l. fst l \<noteq> h) (live w))
          = filter (\<lambda>l. fst l \<notin> set (h # hs)) (live w)"
    by (induction "live w") (auto simp: filter_filter intro: filter_cong)
  then show ?case unfolding foldl_Cons Cons.IH by (simp add: unsub_def)
qed

lemma stop_eq:
  "stopRealtimeSync w =
     w\<lparr>live := filter (\<lambda>l. fst l \<notin> set (syncListeners w)) (live w),
       calls := calls w @ map Unsubscribe (syncListeners w),
       syncListeners := [], currentUserId := None\<rparr>"
  by (simp add: stopRealtimeSync_def foldl_unsub)

lemma foldl_add_hooks:
  "foldl (\<lambda>w' name. add_hooks u name w') w cs =
     w\<lparr>hooks := hooks w @ concat (map (\<lambda>c. [Hook c Creating u, Hook c Updating u, Hook c Deleting u]) cs)\<rparr>"
  by (induction cs arbitrary: w) (simp_all add: add_hooks_def)

lemma foldl_onSnapshot:
  "foldl (\<lambda>w' name. onSnapshot u name w') w tables =
     w\<lparr>live := live w @ [(next_handle w, u, Foods), (next_handle w + 1, u, DailyLogs),
          (next_handle w + 2, u, MealPlans), (next_handle w + 3, u, Inventory),
          (next_handle w + 4, u, Recipes)],
       calls := calls w @ [OnSnapshot (next_handle w) u Foods, OnSnapshot (next_handle w + 1) u DailyLogs,
          OnSnapshot (next_handle w + 2) u MealPlans, OnSnapshot (next_handle w + 3) u Inventory,
          OnSnapshot (next_handle w + 4) u Recipes],
       syncListeners := syncListeners w @ [next_handle w, next_handle w + 1, next_handle w + 2,
          next_handle w + 3, next_handle w + 4],
       next_handle := next_handle w + 5\<rparr>"
  by (simp add: tables_def onSnapshot_def numeral_eq_Suc)

lemma start_eq:
  "currentUserId w \<noteq> Some u \<Longrightarrow>
   startRealtimeSync u w =
     w\<lparr>live := filter (\<lambda>l. fst l \<notin> set (syncListeners w)) (live w)
               @ [(next_handle w, u, Foods), (next_handle w + 1, u, DailyLogs),
                  (next_handle w + 2, u, MealPlans), (next_handle w + 3, u, Inventory),
                  (next_handle w + 4, u, Recipes)],
       calls := calls w @ map Unsubscribe (syncListeners w)
               @ [OnSnapshot (next_handle w) u Foods, OnSnapshot (next_handle w + 1) u DailyLogs,
                  OnSnapshot (next_handle w + 2) u MealPlans, OnSnapshot (next_handle w + 3) u Inventory,
                  OnSnapshot (next_handle w + 4) u Recipes],
       syncListeners := [next_handle w, next_handle w + 1, next_handle w + 2,
          next_handle w + 3, next_handle w + 4],
       currentUserId := Some u,
       hooks := hooks w @ concat (map (\<lambda>c. [Hook c Creating u, Hook c Updating u, Hook c Deleting u]) tables),
       next_handle := next_handle w + 5\<rparr>"
  by (simp add: startRealtimeSync_def Let_def foldl_onSnapshot foldl_add_hooks stop_eq)

lemma start_same: "currentUserId w = Some u \<Longrightarrow> startRealtimeSync u w = w"
  by (simp add: startRealtimeSync_def)

lemma start_current: "currentUserId (startRealtimeSync u w) = Some u"
  by (cases "currentUserId w = Some u") (simp_all add: start_same start_eq)

lemma start_idem: "startRealtimeSync u (startRealtimeSync u w) = startRealtimeSync u w"
  by (rule start_same) (rule start_current)

lemma tracked_filter:
  "map fst (live w) = syncListeners w \<Longrightarrow> filter (\<lambda>l. fst l \<notin> set (syncListeners w)) (live w) = []"
proof -
  assume "map fst (live w) = syncListeners w"
  then have "set (syncListeners w) = fst ` set (live w)" by (metis list.set_map)
  then show ?thesis by (auto simp: filter_empty_conv)
qed

lemma start_db: "db (startRealtimeSync u w) = db w"
  by (cases "currentUserId w = Some u") (simp_all add: start_same start_eq)

lemma hooks_after_start:
  "currentUserId w \<noteq> Some u \<Longrightarrow>
   hooks (startRealtimeSync u w) =
     hooks w @ [Hook Foods Creating u, Hook Foods Updating u, Hook Foods Deleting u,
      Hook DailyLogs Creating u, Hook DailyLogs Updating u, Hook DailyLogs Deleting u,
      Hook MealPlans Creating u, Hook MealPlans Updating u, Hook MealPlans Deleting u,
      Hook Inventory Creating u, Hook Inventory Updating u, Hook Inventory Deleting u,
      Hook Recipes Creating u, Hook Recipes Updating u, Hook Recipes Deleting u]"
  by (simp add: start_eq tables_def)

lemma stop_fields:
  "db (stopRealtimeSync w) = db w" "hooks (stopRealtimeSync w) = hooks w"
  "currentUserId (stopRealtimeSync w) = None" "syncListeners (stopRealtimeSync w) = []"
  by (simp_all add: stop_eq)

lemma initial_fields:
  "hooks initial = []" "syncListeners initial = []" "currentUserId initial = None"
  "live initial = []" "next_handle initial = 0" "calls initial = []" "db initial c = []"
  by (simp_all add: initial_def)

lemma session_ok_initial: "session_ok initial"
  by (simp add: session_ok_def initial_def)

lemma session_ok_stop: "session_ok w \<Longrightarrow> session_ok (stopRealtimeSync w)"
  by (simp add: session_ok_def stop_eq tracked_filter)

lemma session_ok_start: "session_ok w \<Longrightarrow> session_ok (startRealtimeSync u w)"
proof (cases "currentUserId w = Some u")
  case True
  assume "session_ok w"
  then show ?thesis using True by (simp add: start_same)
next
  case False
  assume "session_ok w"
  then have "map fst (live w) = syncListeners w" by (simp add: session_ok_def)
  then have "filter (\<lambda>l. fst l \<notin> set (syncListeners w)) (live w) = []" by (rule tracked_filter)
  then show ?thesis by (simp add: start_eq [OF False] session_ok_def tables_def)
qed

subsection \<open>Download\<close>

lemma download_docs_other:
  "c' \<noteq> c \<Longrightarrow> db (snd (download_docs ev c docs w)) c' = db w c'"
proof (induction docs arbitrary: w)
  case Nil
  show ?case by simp
next
  case (Cons docSnap rest)
  show ?case
  proof (cases "deserializeFromFirestore (date_engine ev) (snd docSnap)")
    case (Inl e)
    then show ?thesis by simp
  next
    case (Inr d)
    show ?thesis
    proof (cases "fst (db_put ev c d w)")
      case None
      then show ?thesis
        using Inr Cons.IH [OF Cons.prems] db_put_other [OF Cons.prems]
        by (simp add: and_then_None)
    next
      case (Some e)
      then show ?thesis using Inr db_put_other [OF Cons.prems] by (simp add: and_then_Some)
    qed
  qed
qed

lemma download_docs_ok:
  "\<forall>docSnap \<in> set docs. storable ev docSnap \<Longrightarrow>
   fst (download_docs ev c docs w) = None
   \<and> db (snd (download_docs ev c docs w)) c = put_all ev (db w c) docs"
proof (induction docs arbitrary: w)
  case Nil
  show ?case by (simp add: put_all_def)
next
  case (Cons docSnap rest)
  from Cons.prems obtain d where d: "deserializeFromFirestore (date_engine ev) (snd docSnap) = Inr d"
    and k: "valid_key (js_member d ''id'')"
    by (auto simp: storable_def split: sum.splits)
  have r: "\<forall>x \<in> set rest. storable ev x" using Cons.prems by simp
  show ?case
    using d db_put_ok [OF k, of ev c w] Cons.IH [OF r, of "snd (db_put ev c d w)"]
    by (simp add: and_then_None put_all_def)
qed

lemma put_all_absent:
  "k \<notin> entity_key ev ` set docs \<Longrightarrow> table_get (put_all ev t docs) k = table_get t k"
proof (induction docs arbitrary: t)
  case Nil
  show ?case by (simp add: put_all_def)
next
  case (Cons x xs)
  have a: "k \<noteq> entity_key ev x" and b: "k \<notin> entity_key ev ` set xs" using Cons.prems by auto
  have "put_all ev t (x # xs) = put_all ev (put_all ev t [x]) xs" by (simp add: put_all_def)
  moreover have "table_get (put_all ev t [x]) k = table_get t k"
    using a by (simp add: put_all_def entity_key_def table_get_put split: sum.splits)
  ultimately show ?case using Cons.IH [OF b] by simp
qed

lemma put_all_present:
  "docSnap \<in> set docs \<Longrightarrow> distinct (map (entity_key ev) docs) \<Longrightarrow>
   deserializeFromFirestore (date_engine ev) (snd docSnap) = Inr d \<Longrightarrow>
   table_get (put_all ev t docs) (js_member d ''id'') = Some d"
proof (induction docs arbitrary: t)
  case Nil
  then show ?case by simp
next
  case (Cons x xs)
  have split: "put_all ev t (x # xs) = put_all ev (put_all ev t [x]) xs" by (simp add: put_all_def)
  show ?case
  proof (cases "docSnap = x")
    case True
    have key: "entity_key ev x = js_member d ''id''"
      using True Cons.prems(3) by (simp add: entity_key_def)
    then have "js_member d ''id'' \<notin> entity_key ev ` set xs" using Cons.prems(2) by auto
    then have "table_get (put_all ev (put_all ev t [x]) xs) (js_member d ''id'')
        = table_get (put_all ev t [x]) (js_member d ''id'')"
      by (rule put_all_absent)
    also have "\<dots> = Some d"
      using True Cons.prems(3) by (simp add: put_all_def table_get_put)
    finally show ?thesis using split by simp
  next
    case False
    then have "docSnap \<in> set xs" using Cons.prems(1) by simp
    moreover have "distinct (map (entity_key ev) xs)" using Cons.prems(2) by simp
    ultimately show ?thesis using Cons.IH Cons.prems(3) split by simp
  qed
qed

lemma download_settings_other:
  "c \<noteq> Settings \<Longrightarrow> db (snd (download_settings ev docs w)) c = db w c"
  by (auto simp: download_settings_def db_put_other split: list.splits sum.splits option.splits)

lemma downloadAllData_tables:
  assumes "\<forall>c \<in> set tables. \<forall>docSnap \<in> set (r (u, c)). storable ev docSnap"
    and "c \<in> set tables"
  shows "db (snd (downloadAllData ev u r w)) c = put_all ev (db w c) (r (u, c))"
proof -
  define w1 where "w1 = snd (download_docs ev Foods (r (u, Foods)) w)"
  define w2 where "w2 = snd (download_docs ev DailyLogs (r (u, DailyLogs)) w1)"
  define w3 where "w3 = snd (download_docs ev MealPlans (r (u, MealPlans)) w2)"
  define w4 where "w4 = snd (download_docs ev Inventory (r (u, Inventory)) w3)"
  define w5 where "w5 = snd (download_docs ev Recipes (r (u, Recipes)) w4)"
  have s: "\<forall>docSnap \<in> set (r (u, Foods)). storable ev docSnap"
    "\<forall>docSnap \<in> set (r (u, DailyLogs)). storable ev docSnap"
    "\<forall>docSnap \<in> set (r (u, MealPlans)). storable ev docSnap"
    "\<forall>docSnap \<in> set (r (u, Inventory)). storable ev docSnap"
    "\<forall>docSnap \<in> set (r (u, Recipes)). storable ev docSnap"
    using assms(1) by (simp_all add: tables_def)
  have all: "downloadAllData ev u r w = download_settings ev (r (u, Settings)) w5"
    unfolding downloadAllData_def w5_def w4_def w3_def w2_def w1_def
    using download_docs_ok [OF s(1)] download_docs_ok [OF s(2)] download_docs_ok [OF s(3)]
      download_docs_ok [OF s(4)] download_docs_ok [OF s(5)]
    by (simp add: and_then_None)
  have 1: "db w1 Foods = put_all ev (db w Foods) (r (u, Foods))"
    unfolding w1_def using download_docs_ok [OF s(1)] by simp
  have 2: "db w2 DailyLogs = put_all ev (db w1 DailyLogs) (r (u, DailyLogs))"
    unfolding w2_def using download_docs_ok [OF s(2)] by simp
  have 3: "db w3 MealPlans = put_all ev (db w2 MealPlans) (r (u, MealPlans))"
    unfolding w3_def using download_docs_ok [OF s(3)] by simp
  have 4: "db w4 Inventory = put_all ev (db w3 Inventory) (r (u, Inventory))"
    unfolding w4_def using download_docs_ok [OF s(4)] by simp
  have 5: "db w5 Recipes = put_all ev (db w4 Recipes) (r (u, Recipes))"
    unfolding w5_def using download_docs_ok [OF s(5)] by simp
  have o1: "\<And>c'. c' \<noteq> Foods \<Longrightarrow> db w1 c' = db w c'"
    unfolding w1_def by (rule download_docs_other)
  have o2: "\<And>c'. c' \<noteq> DailyLogs \<Longrightarrow> db w2 c' = db w1 c'"
    unfolding w2_def by (rule download_docs_other)
  have o3: "\<And>c'. c' \<noteq> MealPlans \<Longrightarrow> db w3 c' = db w2 c'"
    unfolding w3_def by (rule download_docs_other)
  have o4: "\<And>c'. c' \<noteq> Inventory \<Longrightarrow> db w4 c' = db w3 c'"
    unfolding w4_def by (rule download_docs_other)
  have o5: "\<And>c'. c' \<noteq> Recipes \<Longrightarrow> db w5 c' = db w4 c'"
    unfolding w5_def by (rule download_docs_other)
  have ns: "c \<noteq> Settings" using assms(2) by (auto simp: tables_def)
  have "db w5 c = put_all ev (db w c) (r (u, c))"
    using assms(2) 1 2 3 4 5 o1 o2 o3 o4 o5 by (auto simp: tables_def)
  then show ?thesis using all download_settings_other [OF ns] by simp
qed

lemma downloadAllData_preserves:
  assumes "P w"
    and "\<And>c docs w'. c \<noteq> Settings \<Longrightarrow> P w' \<Longrightarrow> P (snd (download_docs ev c docs w'))"
    and "\<And>docs w'. P w' \<Longrightarrow> P (snd (download_settings ev docs w'))"
  shows "P (snd (downloadAllData ev u r w))"
proof -
  have 1: "P (snd (download_docs ev Foods (r (u, Foods)) w))"
    using assms(1) by (intro assms(2)) simp_all
  have step: "P (snd (and_then (download_docs ev c docs w') f))"
    if "c \<noteq> Settings" "P w'" "\<And>w''. P w'' \<Longrightarrow> P (snd (f w''))" for c docs w' f
    using that assms(2) and_then_preserves [of P] by blast
  show ?thesis
    unfolding downloadAllData_def
    by (rule step, simp, rule assms(1), rule step, simp, assumption, rule step, simp, assumption,
        rule step, simp, assumption, rule step, simp, assumption, rule assms(3), assumption)
qed

lemma download_settings_keeps:
  assumes "keeps_sensitive s w"
  shows "keeps_sensitive s (snd (download_settings ev docs w))"
proof (cases docs)
  case Nil
  then show ?thesis using assms by (simp add: download_settings_def)
next
  case (Cons docSnap rest)
  show ?thesis
  proof (cases "deserializeFromFirestore (date_engine ev) (snd docSnap)")
    case (Inl e)
    then show ?thesis using Cons assms by (simp add: download_settings_def)
  next
    case (Inr remoteSettings)
    from assms obtain l where l: "table_get (db w Settings) (JStr ''user-settings'') = Some l"
      and f: "js_member l ''usdaApiKey'' = js_member s ''usdaApiKey''"
        "js_member l ''aiConfig'' = js_member s ''aiConfig''"
      by (auto simp: keeps_sensitive_def split: option.splits)
    let ?m = "JObj (assign (assign [] (own_props remoteSettings))
                 [(''usdaApiKey'', js_member l ''usdaApiKey''), (''aiConfig'', js_member l ''aiConfig'')])"
    have step: "download_settings ev docs w = db_put ev Settings ?m w"
      using Cons Inr l by (simp add: download_settings_def)
    have m: "js_member ?m ''usdaApiKey'' = js_member s ''usdaApiKey''"
      "js_member ?m ''aiConfig'' = js_member s ''aiConfig''"
      using f by (simp_all add: js_member_def merged_fields)
    show ?thesis
    proof (cases "valid_key (js_member ?m ''id'')")
      case False
      then have "db_put ev Settings ?m w = (Some DataError, w)" by (simp add: db_put_def Let_def)
      then show ?thesis using step assms by simp
    next
      case True
      have "db (snd (db_put ev Settings ?m w)) Settings
          = table_put (db w Settings) (js_member ?m ''id'') ?m"
        using db_put_ok [OF True] by simp
      then show ?thesis
        using step l f m by (simp add: keeps_sensitive_def table_get_put del: js_member_def)
    qed
  qed
qed

lemma download_docs_keeps:
  "c \<noteq> Settings \<Longrightarrow> keeps_sensitive s w \<Longrightarrow> keeps_sensitive s (snd (download_docs ev c docs w))"
  using download_docs_other [of Settings c ev docs w] by (simp add: keeps_sensitive_def)

lemma downloadAllData_keeps:
  "keeps_sensitive s w \<Longrightarrow> keeps_sensitive s (snd (downloadAllData ev u r w))"
  by (rule downloadAllData_preserves) (simp_all add: download_docs_keeps download_settings_keeps)

subsection \<open>Upload\<close>

lemma then_do_Inr: "then_do r f = Inr y \<Longrightarrow> \<exists>x. r = Inr x \<and> f x = Inr y"
  by (cases r) (simp_all add: then_do_def)

lemma batch_set_cases:
  assumes "batch_set accepts u c k e b = Inr b'"
  obtains i doc where "k = JStr i" "serializeForFirestore e = Inr doc" "accepts doc"
    "b' = b @ [((u, c, i), doc)]"
proof (cases k)
  case (JStr i)
  show ?thesis
  proof (cases "serializeForFirestore e")
    case (Inl x)
    then show ?thesis using assms JStr by (simp add: batch_set_def then_do_def)
  next
    case (Inr doc)
    then show ?thesis using assms JStr that [of i doc]
      by (cases "accepts doc") (simp_all add: batch_set_def then_do_def)
  qed
qed (use assms in \<open>simp_all add: batch_set_def\<close>)

lemma written_iff:
  "written accepts u c e wr \<longleftrightarrow>
     (\<exists>i doc. js_member e ''id'' = JStr i \<and> serializeForFirestore e = Inr doc \<and> accepts doc
        \<and> wr = ((u, c, i), doc))"
  by (auto simp: written_def split: jsval.splits sum.splits)

lemma batch_set_Inr:
  "batch_set accepts u c (js_member e ''id'') e b = Inr b' \<Longrightarrow>
   \<exists>wr. written accepts u c e wr \<and> b' = b @ [wr]"
  by (erule batch_set_cases) (simp add: written_iff)

lemma upload_table_Inr:
  "upload_table accepts u c es b = Inr b' \<Longrightarrow>
   \<exists>ws. list_all2 (written accepts u c) es ws \<and> b' = b @ ws"
proof (induction es arbitrary: b)
  case Nil
  then show ?case by simp
next
  case (Cons e es)
  from Cons.prems obtain b1 where 1: "batch_set accepts u c (js_member e ''id'') e b = Inr b1"
    and 2: "upload_table accepts u c es b1 = Inr b'"
    by (auto dest: then_do_Inr)
  from batch_set_Inr [OF 1] obtain wr where wr: "written accepts u c e wr" "b1 = b @ [wr]" by blast
  from Cons.IH [OF 2] obtain ws where ws: "list_all2 (written accepts u c) es ws" "b' = b1 @ ws"
    by blast
  have "list_all2 (written accepts u c) (e # es) (wr # ws)" using wr ws by simp
  moreover have "b' = b @ (wr # ws)" using wr ws by simp
  ultimately show ?case by blast
qed

lemma written_in_batch:
  "list_all2 (written accepts u c) es ws \<Longrightarrow> e \<in> set es \<Longrightarrow> \<exists>wr \<in> set ws. written accepts u c e wr"
  by (induction rule: list_all2_induct) auto

lemma written_collection:
  "list_all2 (written accepts u c) es ws \<Longrightarrow> wr \<in> set ws \<Longrightarrow> fst (snd (fst wr)) = c"
  by (induction rule: list_all2_induct) (auto simp: written_iff)

lemma upload_settings_Inr:
  assumes "upload_settings accepts u t b = Inr b'"
  shows "b' = b \<or> (\<exists>i doc. b' = b @ [((u, Settings, i), doc)]
            \<and> js_member doc ''usdaApiKey'' = JUndefined \<and> js_member doc ''aiConfig'' = JUndefined)"
proof (cases "table_get t (JStr ''user-settings'')")
  case None
  then show ?thesis using assms by (simp add: upload_settings_def)
next
  case (Some settings)
  let ?kvs = "assign (assign [] (own_props settings))
                [(''usdaApiKey'', JUndefined), (''aiConfig'', JUndefined)]"
  from assms Some have "batch_set accepts u Settings (js_member settings ''id'') (JObj ?kvs) b = Inr b'"
    by (simp add: upload_settings_def)
  then obtain i doc where i: "serializeForFirestore (JObj ?kvs) = Inr doc"
    and b': "b' = b @ [((u, Settings, i), doc)]"
    by (rule batch_set_cases)
  have d: "distinct (map fst ?kvs)" by (intro assign_distinct) simp
  have "js_member doc ''usdaApiKey'' = JUndefined"
    using i d by (rule serialize_keeps_undefined) (simp add: merged_fields)
  moreover have "js_member doc ''aiConfig'' = JUndefined"
    using i d by (rule serialize_keeps_undefined) (simp add: merged_fields)
  ultimately show ?thesis using b' by blast
qed

lemma upload_batch_Inr:
  assumes "upload_batch accepts u d = Inr b"
  shows "\<exists>ws1 ws2 ws3 ws4 ws5.
      list_all2 (written accepts u Foods) (toArray (d Foods)) ws1
    \<and> list_all2 (written accepts u DailyLogs) (toArray (d DailyLogs)) ws2
    \<and> list_all2 (written accepts u MealPlans) (toArray (d MealPlans)) ws3
    \<and> list_all2 (written accepts u Inventory) (toArray (d Inventory)) ws4
    \<and> list_all2 (written accepts u Recipes) (toArray (d Recipes)) ws5
    \<and> upload_settings accepts u (d Settings) (ws1 @ ws2 @ ws3 @ ws4 @ ws5) = Inr b"
proof -
  note a = assms [unfolded upload_batch_def]
  from then_do_Inr [OF a] obtain b1 where
    1: "upload_table accepts u Foods (toArray (d Foods)) [] = Inr b1" and
    r1: "then_do (upload_table accepts u DailyLogs (toArray (d DailyLogs)) b1) (\<lambda>b2.
         then_do (upload_table accepts u MealPlans (toArray (d MealPlans)) b2) (\<lambda>b3.
         then_do (upload_table accepts u Inventory (toArray (d Inventory)) b3) (\<lambda>b4.
         then_do (upload_table accepts u Recipes (toArray (d Recipes)) b4) (\<lambda>b5.
         upload_settings accepts u (d Settings) b5)))) = Inr b"
    by auto
  from then_do_Inr [OF r1] obtain b2 where
    2: "upload_table accepts u DailyLogs (toArray (d DailyLogs)) b1 = Inr b2" and
    r2: "then_do (upload_table accepts u MealPlans (toArray (d MealPlans)) b2) (\<lambda>b3.
         then_do (upload_table accepts u Inventory (toArray (d Inventory)) b3) (\<lambda>b4.
         then_do (upload_table accepts u Recipes (toArray (d Recipes)) b4) (\<lambda>b5.
         upload_settings accepts u (d Settings) b5))) = Inr b"
    by auto
  from then_do_Inr [OF r2] obtain b3 where
    3: "upload_table accepts u MealPlans (toArray (d MealPlans)) b2 = Inr b3" and
    r3: "then_do (upload_table accepts u Inventory (toArray (d Inventory)) b3) (\<lambda>b4.
         then_do (upload_table accepts u Recipes (toArray (d Recipes)) b4) (\<lambda>b5.
         upload_settings accepts u (d Settings) b5)) = Inr b"
    by auto
  from then_do_Inr [OF r3] obtain b4 where
    4: "upload_table accepts u Inventory (toArray (d Inventory)) b3 = Inr b4" and
    r4: "then_do (upload_table accepts u Recipes (toArray (d Recipes)) b4) (\<lambda>b5.
         upload_settings accepts u (d Settings) b5) = Inr b"
    by auto
  from then_do_Inr [OF r4] obtain b5 where
    5: "upload_table accepts u Recipes (toArray (d Recipes)) b4 = Inr b5" and
    6: "upload_settings accepts u (d Settings) b5 = Inr b"
    by auto
  from upload_table_Inr [OF 1] obtain ws1 where
    w1: "list_all2 (written accepts u Foods) (toArray (d Foods)) ws1" "b1 = ws1" by auto
  from upload_table_Inr [OF 2] obtain ws2 where
    w2: "list_all2 (written accepts u DailyLogs) (toArray (d DailyLogs)) ws2" "b2 = b1 @ ws2" by auto
  from upload_table_Inr [OF 3] obtain ws3 where
    w3: "list_all2 (written accepts u MealPlans) (toArray (d MealPlans)) ws3" "b3 = b2 @ ws3" by auto
  from upload_table_Inr [OF 4] obtain ws4 where
    w4: "list_all2 (written accepts u Inventory) (toArray (d Inventory)) ws4" "b4 = b3 @ ws4" by auto
  from upload_table_Inr [OF 5] obtain ws5 where
    w5: "list_all2 (written accepts u Recipes) (toArray (d Recipes)) ws5" "b5 = b4 @ ws5" by auto
  have "b5 = ws1 @ ws2 @ ws3 @ ws4 @ ws5" using w1 w2 w3 w4 w5 by simp
  then have "upload_settings accepts u (d Settings) (ws1 @ ws2 @ ws3 @ ws4 @ ws5) = Inr b"
    using 6 by simp
  then show ?thesis using w1(1) w2(1) w3(1) w4(1) w5(1) by (intro exI conjI)
qed

lemma upload_batch_covers:
  assumes "upload_batch accepts u d = Inr b" "c \<in> set tables" "e \<in> set (toArray (d c))"
  shows "\<exists>wr \<in> set b. written accepts u c e wr"
proof -
  from upload_batch_Inr [OF assms(1)] obtain ws1 ws2 ws3 ws4 ws5 where
    w: "list_all2 (written accepts u Foods) (toArray (d Foods)) ws1"
      "list_all2 (written accepts u DailyLogs) (toArray (d DailyLogs)) ws2"
      "list_all2 (written accepts u MealPlans) (toArray (d MealPlans)) ws3"
      "list_all2 (written accepts u Inventory) (toArray (d Inventory)) ws4"
      "list_all2 (written accepts u Recipes) (toArray (d Recipes)) ws5"
    and s: "upload_settings accepts u (d Settings) (ws1 @ ws2 @ ws3 @ ws4 @ ws5) = Inr b"
    by blast
  have sub: "set (ws1 @ ws2 @ ws3 @ ws4 @ ws5) \<subseteq> set b"
    using upload_settings_Inr [OF s] by auto
  consider "c = Foods" | "c = DailyLogs" | "c = MealPlans" | "c = Inventory" | "c = Recipes"
    using assms(2) by (auto simp: tables_def)
  then have "\<exists>wr \<in> set (ws1 @ ws2 @ ws3 @ ws4 @ ws5). written accepts u c e wr"
  proof cases
    case 1
    then show ?thesis using written_in_batch [OF w(1)] assms(3) by auto
  next
    case 2
    then show ?thesis using written_in_batch [OF w(2)] assms(3) by auto
  next
    case 3
    then show ?thesis using written_in_batch [OF w(3)] assms(3) by auto
  next
    case 4
    then show ?thesis using written_in_batch [OF w(4)] assms(3) by auto
  next
    case 5
    then show ?thesis using written_in_batch [OF w(5)] assms(3) by auto
  qed
  then show ?thesis using sub by blast
qed

lemma upload_batch_settings:
  assumes "upload_batch accepts u d = Inr b" "wr \<in> set b" "fst (snd (fst wr)) = Settings"
  shows "js_member (snd wr) ''usdaApiKey'' = JUndefined \<and> js_member (snd wr) ''aiConfig'' = JUndefined"
proof -
  from upload_batch_Inr [OF assms(1)] obtain ws1 ws2 ws3 ws4 ws5 where
    w: "list_all2 (written accepts u Foods) (toArray (d Foods)) ws1"
      "list_all2 (written accepts u DailyLogs) (toArray (d DailyLogs)) ws2"
      "list_all2 (written accepts u MealPlans) (toArray (d MealPlans)) ws3"
      "list_all2 (written accepts u Inventory) (toArray (d Inventory)) ws4"
      "list_all2 (written accepts u Recipes) (toArray (d Recipes)) ws5"
    and s: "upload_settings accepts u (d Settings) (ws1 @ ws2 @ ws3 @ ws4 @ ws5) = Inr b"
    by blast
  have other: "wr \<notin> set (ws1 @ ws2 @ ws3 @ ws4 @ ws5)"
    using written_collection [OF w(1), of wr] written_collection [OF w(2), of wr]
      written_collection [OF w(3), of wr] written_collection [OF w(4), of wr]
      written_collection [OF w(5), of wr] assms(3) by auto
  from upload_settings_Inr [OF s] show ?thesis
  proof
    assume "b = ws1 @ ws2 @ ws3 @ ws4 @ ws5"
    then show ?thesis using other assms(2) by simp
  next
    assume "\<exists>i doc. b = (ws1 @ ws2 @ ws3 @ ws4 @ ws5) @ [((u, Settings, i), doc)]
            \<and> js_member doc ''usdaApiKey'' = JUndefined \<and> js_member doc ''aiConfig'' = JUndefined"
    then obtain i doc where b: "b = (ws1 @ ws2 @ ws3 @ ws4 @ ws5) @ [((u, Settings, i), doc)]"
      and f: "js_member doc ''usdaApiKey'' = JUndefined" "js_member doc ''aiConfig'' = JUndefined"
      by blast
    have "wr = ((u, Settings, i), doc)" using b other assms(2) by auto
    then show ?thesis using f by simp
  qed
qed

lemma map_of_set_doc: "map_of (set_doc docs i d) j = (if j = i then Some d else map_of docs j)"
  by (induction docs) auto

lemma apply_set_at:
  "apply_set r wr p =
     (if fst (fst wr) = fst p \<and> fst (snd (fst wr)) = snd p
      then set_doc (r p) (snd (snd (fst wr))) (snd wr) else r p)"
  by (cases wr; cases p) (auto simp: apply_set_def)

lemma foldl_apply_set_other:
  "\<forall>wr \<in> set ws. \<not> (fst (fst wr) = fst p \<and> fst (snd (fst wr)) = snd p)
     \<Longrightarrow> foldl apply_set r ws p = r p"
  by (induction ws arbitrary: r) (auto simp: apply_set_at)

lemma foldl_apply_set_absent:
  "\<forall>wr \<in> set ws. snd (snd (fst wr)) \<noteq> i \<Longrightarrow>
   map_of (foldl apply_set r ws p) i = map_of (r p) i"
  by (induction ws arbitrary: r) (auto simp: apply_set_at map_of_set_doc)

lemma foldl_apply_set_present:
  assumes "list_all2 (written accepts u c) es ws"
    and "distinct (map (\<lambda>e. js_member e ''id'') es)"
    and "e \<in> set es"
  shows "\<exists>i doc. js_member e ''id'' = JStr i \<and> serializeForFirestore e = Inr doc
           \<and> map_of (foldl apply_set r ws (u, c)) i = Some doc"
  using assms
proof (induction arbitrary: r rule: list_all2_induct)
  case Nil
  then show ?case by simp
next
  case (Cons x es wr ws)
  from Cons.hyps(1) obtain i doc where x: "js_member x ''id'' = JStr i"
    "serializeForFirestore x = Inr doc" "wr = ((u, c, i), doc)"
    by (auto simp: written_iff)
  show ?case
  proof (cases "e = x")
    case True
    have "\<forall>wr' \<in> set ws. snd (snd (fst wr')) \<noteq> i"
    proof
      fix wr' assume "wr' \<in> set ws"
      then obtain e' where e': "e' \<in> set es" "written accepts u c e' wr'"
        using Cons.hyps(2) by (metis in_set_conv_nth list_all2_conv_all_nth)
      then have "js_member e' ''id'' = JStr (snd (snd (fst wr')))" by (auto simp: written_iff)
      moreover have "js_member e' ''id'' \<noteq> js_member x ''id''"
        using Cons.prems(1) e'(1) by (auto simp: image_iff)
      ultimately show "snd (snd (fst wr')) \<noteq> i" using x(1) by auto
    qed
    then have "map_of (foldl apply_set (apply_set r wr) ws (u, c)) i
        = map_of (apply_set r wr (u, c)) i"
      by (rule foldl_apply_set_absent)
    also have "\<dots> = Some doc" using x(3) by (simp add: apply_set_at map_of_set_doc)
    finally show ?thesis using True x by auto
  next
    case False
    then have "e \<in> set es" using Cons.prems(2) by simp
    moreover have "distinct (map (\<lambda>e. js_member e ''id'') es)" using Cons.prems(1) by simp
    ultimately show ?thesis using Cons.IH [of "apply_set r wr"] by simp
  qed
qed


lemma settings_write_path:
  assumes "upload_settings accepts u t b = Inr b'"
  shows "\<exists>ws. b' = b @ ws \<and> (\<forall>wr \<in> set ws. fst (snd (fst wr)) = Settings)"
  using upload_settings_Inr [OF assms] by auto

lemma upload_batch_stored:
  assumes "upload_batch accepts u d = Inr b" "c \<in> set tables"
    and "distinct (map (\<lambda>e. js_member e ''id'') (toArray (d c)))"
    and "e \<in> set (toArray (d c))"
  shows "\<exists>i doc. js_member e ''id'' = JStr i \<and> serializeForFirestore e = Inr doc
           \<and> map_of (foldl apply_set r b (u, c)) i = Some doc"
proof -
  from upload_batch_Inr [OF assms(1)] obtain ws1 ws2 ws3 ws4 ws5 where
    w: "list_all2 (written accepts u Foods) (toArray (d Foods)) ws1"
      "list_all2 (written accepts u DailyLogs) (toArray (d DailyLogs)) ws2"
      "list_all2 (written accepts u MealPlans) (toArray (d MealPlans)) ws3"
      "list_all2 (written accepts u Inventory) (toArray (d Inventory)) ws4"
      "list_all2 (written accepts u Recipes) (toArray (d Recipes)) ws5"
    and s: "upload_settings accepts u (d Settings) (ws1 @ ws2 @ ws3 @ ws4 @ ws5) = Inr b"
    by blast
  from settings_write_path [OF s] obtain ws6 where
    b: "b = ws1 @ ws2 @ ws3 @ ws4 @ ws5 @ ws6"
    and w6: "\<forall>wr \<in> set ws6. fst (snd (fst wr)) = Settings"
    by auto
  have skip: "foldl apply_set r' ws (u, c) = r' (u, c)"
    if "\<forall>wr \<in> set ws. fst (snd (fst wr)) \<noteq> c" for r' ws
    using that by (intro foldl_apply_set_other) simp
  have k1: "foldl apply_set r' ws1 (u, c) = r' (u, c)" if "c \<noteq> Foods" for r'
    using written_collection [OF w(1)] that by (intro skip) auto
  have k2: "foldl apply_set r' ws2 (u, c) = r' (u, c)" if "c \<noteq> DailyLogs" for r'
    using written_collection [OF w(2)] that by (intro skip) auto
  have k3: "foldl apply_set r' ws3 (u, c) = r' (u, c)" if "c \<noteq> MealPlans" for r'
    using written_collection [OF w(3)] that by (intro skip) auto
  have k4: "foldl apply_set r' ws4 (u, c) = r' (u, c)" if "c \<noteq> Inventory" for r'
    using written_collection [OF w(4)] that by (intro skip) auto
  have k5: "foldl apply_set r' ws5 (u, c) = r' (u, c)" if "c \<noteq> Recipes" for r'
    using written_collection [OF w(5)] that by (intro skip) auto
  have k6: "foldl apply_set r' ws6 (u, c) = r' (u, c)" if "c \<noteq> Settings" for r'
    using w6 that by (intro skip) auto
  note here = foldl_apply_set_present [OF _ assms(3) assms(4)]
  consider "c = Foods" | "c = DailyLogs" | "c = MealPlans" | "c = Inventory" | "c = Recipes"
    using assms(2) by (auto simp: tables_def)
  then show ?thesis
  proof cases
    case 1
    have "foldl apply_set r b (u, c) = foldl apply_set r ws1 (u, c)"
      unfolding b foldl_append
      using 1 k1 k2 k3 k4 k5 k6 by simp
    then show ?thesis using here [where ws = ws1 and r = r] w(1) 1 by simp
  next
    case 2
    have "foldl apply_set r b (u, c) = foldl apply_set (foldl apply_set r ws1) ws2 (u, c)"
      unfolding b foldl_append
      using 2 k1 k2 k3 k4 k5 k6 by simp
    then show ?thesis using here [where ws = ws2 and r = "foldl apply_set r ws1"] w(2) 2 by simp
  next
    case 3
    have "foldl apply_set r b (u, c)
        = foldl apply_set (foldl apply_set (foldl apply_set r ws1) ws2) ws3 (u, c)"
      unfolding b foldl_append
      using 3 k1 k2 k3 k4 k5 k6 by simp
    then show ?thesis
      using here [where ws = ws3 and r = "foldl apply_set (foldl apply_set r ws1) ws2"] w(3) 3 by simp
  next
    case 4
    have "foldl apply_set r b (u, c)
        = foldl apply_set (foldl apply_set (foldl apply_set (foldl apply_set r ws1) ws2) ws3) ws4 (u, c)"
      unfolding b foldl_append
      using 4 k1 k2 k3 k4 k5 k6 by simp
    then show ?thesis
      using here [where ws = ws4 and r = "foldl apply_set (foldl apply_set (foldl apply_set r ws1) ws2) ws3"] w(4) 4 by simp
  next
    case 5
    have "foldl apply_set r b (u, c)
        = foldl apply_set (foldl apply_set (foldl apply_set (foldl apply_set
            (foldl apply_set r ws1) ws2) ws3) ws4) ws5 (u, c)"
      unfolding b foldl_append
      using 5 k1 k2 k3 k4 k5 k6 by simp
    then show ?thesis
      using here [where ws = ws5 and r = "foldl apply_set (foldl apply_set (foldl apply_set (foldl apply_set r ws1) ws2) ws3) ws4"]
        w(5) 5 by simp
  qed
qed

text \<open>With a settings record, the client of the repository refuses the upload.\<close>

lemma entry_of_get_prop: "k \<in> fst ` set kvs \<Longrightarrow> (k, get_prop kvs k) \<in> set kvs"
  by (induction kvs) force+

lemma undefined_entry_survives:
  "list_all2 (\<lambda>kv kw. fst kw = fst kv \<and> serialize_prop (snd kv) = Inr (snd kw)) kvs kws \<Longrightarrow>
   (k, JUndefined) \<in> set kvs \<Longrightarrow> (k, JUndefined) \<in> set kws"
proof (induction rule: list_all2_induct)
  case Nil
  then show ?case by simp
next
  case (Cons kv kvs kw kws)
  show ?case
  proof (cases "kv = (k, JUndefined)")
    case True
    then have "kw = (k, JUndefined)" using Cons.hyps(1) by (cases kw) (simp add: serialize_prop_def)
    then show ?thesis by simp
  next
    case False
    then show ?thesis using Cons by auto
  qed
qed

lemma serialize_keeps_undefined_entry:
  assumes "serializeForFirestore (JObj kvs) = Inr doc" "distinct (map fst kvs)"
    "(k, JUndefined) \<in> set kvs" "k \<noteq> ''__proto__''"
  shows "\<exists>r. doc = JObj r \<and> (k, JUndefined) \<in> set r"
proof -
  from assms(1) obtain r where r: "for_entries serialize_prop kvs [] = Inr r" and doc: "doc = JObj r"
    by (cases "for_entries serialize_prop kvs []") (auto simp: serializeForFirestore_unfold)
  from for_entries_Inr [OF r assms(2)] obtain kws where
    kws: "list_all2 (\<lambda>kv kw. fst kw = fst kv \<and> serialize_prop (snd kv) = Inr (snd kw))
       (filter (\<lambda>kv. fst kv \<noteq> ''__proto__'') kvs) kws" "r = kws"
    by auto
  have "(k, JUndefined) \<in> set (filter (\<lambda>kv. fst kv \<noteq> ''__proto__'') kvs)"
    using assms(3,4) by simp
  with kws(1) have "(k, JUndefined) \<in> set kws" by (rule undefined_entry_survives)
  then show ?thesis using doc kws(2) by simp
qed

lemma client_refuses_undefined: "(k, JUndefined) \<in> set r \<Longrightarrow> \<not> firestore_client (JObj r)"
  by (force simp: firestore_client_def)

lemma upload_settings_refused:
  assumes "table_get t (JStr ''user-settings'') = Some s"
  shows "\<exists>e. upload_settings firestore_client u t b = Inl e"
proof -
  let ?kvs = "assign (assign [] (own_props s))
                [(''usdaApiKey'', JUndefined), (''aiConfig'', JUndefined)]"
  have d: "distinct (map fst ?kvs)" by (intro assign_distinct) simp
  have "''usdaApiKey'' \<in> fst ` set ?kvs" by (simp add: assign_def define_prop_keys)
  then have "(''usdaApiKey'', get_prop ?kvs ''usdaApiKey'') \<in> set ?kvs" by (rule entry_of_get_prop)
  then have m: "(''usdaApiKey'', JUndefined) \<in> set ?kvs" by (simp only: merged_fields)
  have "\<exists>e. batch_set firestore_client u Settings k (JObj ?kvs) b = Inl e" for k
  proof (cases "batch_set firestore_client u Settings k (JObj ?kvs) b")
    case (Inl e)
    then show ?thesis by blast
  next
    case (Inr b')
    then obtain doc where doc: "serializeForFirestore (JObj ?kvs) = Inr doc" "firestore_client doc"
      by (rule batch_set_cases)
    from serialize_keeps_undefined_entry [OF doc(1) d m] obtain r where
      "doc = JObj r" "(''usdaApiKey'', JUndefined) \<in> set r" by auto
    then show ?thesis using doc(2) client_refuses_undefined by blast
  qed
  then show ?thesis using assms by (simp add: upload_settings_def)
qed

lemma upload_batch_refused:
  assumes "table_get (d Settings) (JStr ''user-settings'') = Some s"
  shows "\<exists>e. upload_batch firestore_client u d = Inl e"
proof (cases "upload_batch firestore_client u d")
  case (Inl e)
  then show ?thesis by blast
next
  case (Inr b)
  from upload_batch_Inr [OF Inr] obtain b5 where
    "upload_settings firestore_client u (d Settings) b5 = Inr b" by blast
  then show ?thesis
    using upload_settings_refused [where t = "d Settings" and s = s and u = u and b = b5] assms by auto
qed

subsection \<open>The examples, evaluated\<close>

lemma oats_local_fields:
  "js_member oats_local ''id'' = JStr ''f1''"
  "js_member oats_local ''updatedAt'' = JDate (UTC 2024 1 1 10 0 0 0)"
  by (simp_all add: oats_local_def js_member_def)

lemma porridge_1100_fields:
  "js_member porridge_1100 ''id'' = JStr ''f1''"
  "js_member porridge_1100 ''updatedAt'' = JDate (UTC 2024 1 1 11 0 0 0)"
  by (simp_all add: porridge_1100_def js_member_def)

lemma oats_local_safe: "codec_safe False oats_local"
  by code_simp

lemma porridge_1100_safe: "codec_safe False porridge_1100"
  by code_simp

lemma oats_local_encoded:
  "encoded oats_local = JObj [(''id'', JStr ''f1''), (''name'', JStr ''Oats''),
                      (''updatedAt'', JStr ''2024-01-01T10:00:00.000Z'')]"
  by (simp add: oats_local_def iso_string_four_digit_year pad_2 pad_3 pad_4 digit_char_def
      del: pad.simps)

lemma oats_local_plain: "no_proto oats_local"
  by (simp add: oats_local_def)

lemma ser_oats: "serializeForFirestore oats_local = Inr (encoded oats_local)"
  using serialize_safe oats_local_safe oats_local_plain
  by (simp add: oats_local_def del: codec_safe.simps encoded.simps no_proto.simps)

lemma encode_1100: "serializeForFirestore porridge_1100 = Inr wire_1100"
proof -
  have "codec_safe False (JObj [(''id'', JStr ''f1''), (''name'', JStr ''Porridge''),
                  (''updatedAt'', JDate (UTC 2024 1 1 11 0 0 0))])"
    using porridge_1100_safe by (simp add: porridge_1100_def)
  from serialize_safe [OF this] show ?thesis
    by (simp add: porridge_1100_def wire_1100_def iso_string_four_digit_year pad_2 pad_3 pad_4
        digit_char_def del: pad.simps)
qed

lemma decode_1100:
  "deserializeFromFirestore (date_engine plain_env) wire_1100 = Inr porridge_1100"
  by code_simp

lemma decode_0900:
  "deserializeFromFirestore (date_engine plain_env) wire_0900 = Inr porridge_0900"
  by code_simp

lemma porridge_0900_fields:
  "js_member porridge_0900 ''id'' = JStr ''f1''"
  "js_member porridge_0900 ''updatedAt'' = JDate (UTC 2024 1 1 9 0 0 0)"
  by (simp_all add: porridge_0900_def js_member_def)

lemma with_food_oats:
  "table_get (db (with_food oats_local initial) Foods) (JStr ''f1'') = Some oats_local"
  by (simp add: with_food_def oats_local_fields table_get_def)

lemma u1_hooks:
  "hooks (startRealtimeSync ''u1'' initial) =
     [Hook Foods Creating ''u1'', Hook Foods Updating ''u1'', Hook Foods Deleting ''u1'',
      Hook DailyLogs Creating ''u1'', Hook DailyLogs Updating ''u1'', Hook DailyLogs Deleting ''u1'',
      Hook MealPlans Creating ''u1'', Hook MealPlans Updating ''u1'', Hook MealPlans Deleting ''u1'',
      Hook Inventory Creating ''u1'', Hook Inventory Updating ''u1'', Hook Inventory Deleting ''u1'',
      Hook Recipes Creating ''u1'', Hook Recipes Updating ''u1'', Hook Recipes Deleting ''u1'']"
  by (simp add: start_eq initial_fields tables_def)

lemma soup_ser: "serializeForFirestore soup = Inr soup"
  by code_simp

lemma settings_ser:
  "serializeForFirestore (JObj (assign (assign [] (own_props my_settings))
        [(''usdaApiKey'', JUndefined), (''aiConfig'', JUndefined)]))
   = Inr (JObj [(''id'', JStr ''user-settings''), (''theme'', JStr ''dark''),
                (''usdaApiKey'', JUndefined), (''aiConfig'', JUndefined)])"
  by code_simp

lemma pantry_batch:
  "upload_batch all_accepted ''u1'' pantry
     = Inr [((''u1'', Foods, ''f1''), encoded oats_local), ((''u1'', Recipes, ''r1''), soup),
            ((''u1'', Settings, ''user-settings''),
             JObj [(''id'', JStr ''user-settings''), (''theme'', JStr ''dark''),
                   (''usdaApiKey'', JUndefined), (''aiConfig'', JUndefined)])]"
proof -
  have s: "js_member soup ''id'' = JStr ''r1''" "js_member my_settings ''id'' = JStr ''user-settings''"
    by (simp_all add: soup_def my_settings_def js_member_def)
  show ?thesis
    by (simp add: upload_batch_def pantry_def toArray_def then_do_def batch_set_def all_accepted_def
        oats_local_fields s ser_oats soup_ser upload_settings_def table_get_def settings_ser
        del: encoded.simps)
qed

lemma client_takes_foods: "firestore_client (encoded oats_local)" "firestore_client soup"
  by (simp_all add: oats_local_encoded soup_def firestore_client_def reserved_name_def)

lemma pantry_refused: "upload_batch firestore_client ''u1'' pantry = Inl FirebaseError"
proof -
  have s: "js_member soup ''id'' = JStr ''r1''" "js_member my_settings ''id'' = JStr ''user-settings''"
    by (simp_all add: soup_def my_settings_def js_member_def)
  have refused: "\<not> firestore_client (JObj [(''id'', JStr ''user-settings''), (''theme'', JStr ''dark''),
                (''usdaApiKey'', JUndefined), (''aiConfig'', JUndefined)])"
    by (simp add: firestore_client_def)
  show ?thesis
    by (simp add: upload_batch_def pantry_def toArray_def then_do_def batch_set_def client_takes_foods
        oats_local_fields s ser_oats soup_ser upload_settings_def table_get_def settings_ser refused
        del: encoded.simps)
qed

lemma pantry_without_settings_batch:
  "upload_batch firestore_client ''u1'' pantry_without_settings
     = Inr [((''u1'', Foods, ''f1''), encoded oats_local), ((''u1'', Recipes, ''r1''), soup)]"
proof -
  have s: "js_member soup ''id'' = JStr ''r1''"
    by (simp add: soup_def js_member_def)
  show ?thesis
    by (simp add: upload_batch_def pantry_without_settings_def toArray_def then_do_def batch_set_def
        client_takes_foods oats_local_fields s ser_oats soup_ser upload_settings_def table_get_def
        del: encoded.simps)
qed

lemma pantry_settings: "table_get (pantry Settings) (JStr ''user-settings'') = Some my_settings"
  by (simp add: pantry_def table_get_def)

lemma my_settings_fields:
  "js_member my_settings ''usdaApiKey'' = JStr ''KEY-123''"
  "js_member my_settings ''aiConfig'' = JObj [(''provider'', JStr ''openai''), (''apiKey'', JStr ''sk-1'')]"
  by (simp_all add: my_settings_def js_member_def)

section \<open>Codec round trip\<close>

text \<open>
  C4 (amended). Encoding and then decoding gives back every entity whose values survive
  the codec (\<open>codec_safe\<close>) and that has no property named \<^verbatim>\<open>__proto__\<close>
  (\<open>no_proto\<close>): an object, each key once, in which no string, as a property or as an
  array item at any depth, starts like a timestamp, every \<^verbatim>\<open>Date\<close> is a real instant
  of a year 0..9999, no array is an item of an array, and no object, at any depth, has
  an own property named \<^verbatim>\<open>__proto__\<close>.
\<close>

theorem codec_round_trip:
  assumes "codec_safe False (JObj kvs)" and "no_proto (JObj kvs)"
  shows "round_trip engine (JObj kvs) = Inr (JObj kvs)"
proof -
  have "serializeForFirestore (JObj kvs) = Inr (encoded (JObj kvs))"
    using assms by (rule serialize_safe)
  moreover have "deserializeFromFirestore engine (encoded (JObj kvs)) = Inr (JObj kvs)"
    using assms by (rule deserialize_safe)
  ultimately show ?thesis by (simp add: round_trip_def del: encoded.simps)
qed

text \<open>An instance: a food with a timestamp, and an array holding a number and an object.\<close>

theorem codec_round_trip_witness:
  "codec_safe False (JObj [(''id'', JStr ''f1''), (''name'', JStr ''Oats''),
      (''updatedAt'', JDate (UTC 2024 1 1 10 0 0 0)),
      (''servings'', JArr [JNum 2, JObj [(''unit'', JStr ''g''),
         (''at'', JDate (UTC 2024 2 29 23 59 59 999))]])])
   \<and> no_proto (JObj [(''id'', JStr ''f1''), (''name'', JStr ''Oats''),
      (''updatedAt'', JDate (UTC 2024 1 1 10 0 0 0)),
      (''servings'', JArr [JNum 2, JObj [(''unit'', JStr ''g''),
         (''at'', JDate (UTC 2024 2 29 23 59 59 999))]])])
   \<and> round_trip strict_engine (JObj [(''id'', JStr ''f1''), (''name'', JStr ''Oats''),
      (''updatedAt'', JDate (UTC 2024 1 1 10 0 0 0)),
      (''servings'', JArr [JNum 2, JObj [(''unit'', JStr ''g''),
         (''at'', JDate (UTC 2024 2 29 23 59 59 999))]])])
     = Inr (JObj [(''id'', JStr ''f1''), (''name'', JStr ''Oats''),
      (''updatedAt'', JDate (UTC 2024 1 1 10 0 0 0)),
      (''servings'', JArr [JNum 2, JObj [(''unit'', JStr ''g''),
         (''at'', JDate (UTC 2024 2 29 23 59 59 999))]])])"
proof -
  have safe: "codec_safe False (JObj [(''id'', JStr ''f1''), (''name'', JStr ''Oats''),
      (''updatedAt'', JDate (UTC 2024 1 1 10 0 0 0)),
      (''servings'', JArr [JNum 2, JObj [(''unit'', JStr ''g''),
         (''at'', JDate (UTC 2024 2 29 23 59 59 999))]])])"
    by code_simp
  have plain: "no_proto (JObj [(''id'', JStr ''f1''), (''name'', JStr ''Oats''),
      (''updatedAt'', JDate (UTC 2024 1 1 10 0 0 0)),
      (''servings'', JArr [JNum 2, JObj [(''unit'', JStr ''g''),
         (''at'', JDate (UTC 2024 2 29 23 59 59 999))]])])"
    by simp
  from codec_round_trip [OF safe plain, of strict_engine] safe plain show ?thesis by blast
qed

text \<open>
  C4 as stated fails: a food whose name is the plain string
  \<^verbatim>\<open>2024-01-01T10:00:00.000Z\<close> comes back with a \<^verbatim>\<open>Date\<close> for a name.
\<close>

theorem codec_round_trip_counterexample:
  "round_trip strict_engine
     (JObj [(''id'', JStr ''f1''), (''name'', JStr ''2024-01-01T10:00:00.000Z'')])
   = Inr (JObj [(''id'', JStr ''f1''), (''name'', JDate (UTC 2024 1 1 10 0 0 0))])
   \<and> round_trip strict_engine
     (JObj [(''id'', JStr ''f1''), (''name'', JStr ''2024-01-01T10:00:00.000Z'')])
   \<noteq> Inr (JObj [(''id'', JStr ''f1''), (''name'', JStr ''2024-01-01T10:00:00.000Z'')])"
  by code_simp

text \<open>
  The other value that does not come back: an own property named \<^verbatim>\<open>__proto__\<close> is
  not copied by the encoder.
\<close>

lemma proto_property_is_dropped:
  "serializeForFirestore (JObj [(''id'', JStr ''f1''), (''__proto__'', JStr ''x'')])
     = Inr (JObj [(''id'', JStr ''f1'')])
   \<and> round_trip strict_engine (JObj [(''id'', JStr ''f1''), (''__proto__'', JStr ''x'')])
     = Inr (JObj [(''id'', JStr ''f1'')])"
  by code_simp

section \<open>The Remote Reader\<close>

text \<open>
  C3. For an incoming change tagged added or modified that carries the entity \<open>d\<close>
  with id \<open>i\<close>, where \<^verbatim>\<open>updatedAt\<close> is a \<^verbatim>\<open>Date\<close> or absent on both sides: if
  there is no local copy with id \<open>i\<close>, or the remote timestamp is strictly greater
  than the local one, or the local copy has no timestamp and the remote one has, the
  local store afterwards holds \<open>d\<close> under \<open>i\<close>; in every other case the handler
  leaves the state as it was. So the store holds \<open>d\<close> afterwards if and only if one
  of the three conditions was met, or it held \<open>d\<close> already.
\<close>

theorem last_write_wins:
  assumes "deserializeFromFirestore (date_engine ev) raw = Inr d"
    and "js_member d ''id'' = JStr i"
    and "ctype = Added \<or> ctype = Modified"
    and "timestamp_or_absent (js_member d ''updatedAt'')"
    and "\<forall>l. table_get (db w c) (JStr i) = Some l \<longrightarrow> timestamp_or_absent (js_member l ''updatedAt'')"
  shows "(remote_wins (table_get (db w c) (JStr i)) d \<longrightarrow>
            fst (on_change ev c (ctype, i, raw) w) = None
            \<and> table_get (db (snd (on_change ev c (ctype, i, raw) w)) c) (JStr i) = Some d)
         \<and> (\<not> remote_wins (table_get (db w c) (JStr i)) d \<longrightarrow>
            on_change ev c (ctype, i, raw) w = (None, w))
         \<and> (table_get (db (snd (on_change ev c (ctype, i, raw) w)) c) (JStr i) = Some d
              \<longleftrightarrow> remote_wins (table_get (db w c) (JStr i)) d
                  \<or> table_get (db w c) (JStr i) = Some d)"
proof (cases "table_get (db w c) (JStr i)")
  case None
  have "should_apply None (js_member d ''updatedAt'') JUndefined = Inr True"
    by (simp add: should_apply_def)
  then show ?thesis
    using None assms(1,2,3)
    by (auto simp: on_change_def remote_wins_def db_put_def Let_def table_get_put)
next
  case (Some l)
  have "timestamp_or_absent (js_member l ''updatedAt'')" using assms(5) Some by simp
  then have "should_apply (Some l) (js_member d ''updatedAt'') (js_member l ''updatedAt'')
     = Inr (remote_wins (Some l) d)"
    using should_apply_typed [OF assms(4)] by (simp add: remote_wins_def)
  then show ?thesis
    using Some assms(1,2,3)
    by (auto simp: on_change_def db_put_def Let_def table_get_put)
qed

text \<open>
  An instance: the local food of 10:00 takes the version of 11:00, and keeps its own
  against the version of 09:00.
\<close>

theorem last_write_wins_witness:
  "remote_wins (table_get (db (with_food oats_local initial) Foods) (JStr ''f1'')) porridge_1100
   \<and> fst (on_change plain_env Foods (Modified, ''f1'', wire_1100) (with_food oats_local initial)) = None
   \<and> table_get (db (snd (on_change plain_env Foods (Modified, ''f1'', wire_1100)
         (with_food oats_local initial))) Foods) (JStr ''f1'')
       = Some porridge_1100
   \<and> \<not> remote_wins (table_get (db (with_food oats_local initial) Foods) (JStr ''f1'')) porridge_0900
   \<and> on_change plain_env Foods (Modified, ''f1'', wire_0900) (with_food oats_local initial)
       = (None, with_food oats_local initial)"
proof -
  let ?w = "with_food oats_local initial"
  have 3: "Modified = Added \<or> Modified = Modified" by simp
  have 4: "timestamp_or_absent (js_member porridge_1100 ''updatedAt'')" by (simp add: porridge_1100_fields)
  have r4: "timestamp_or_absent (js_member porridge_0900 ''updatedAt'')"
    by (simp add: porridge_0900_fields)
  have 5: "\<forall>l. table_get (db ?w Foods) (JStr ''f1'') = Some l
             \<longrightarrow> timestamp_or_absent (js_member l ''updatedAt'')"
    by (simp add: with_food_oats oats_local_fields)
  have 6: "remote_wins (table_get (db ?w Foods) (JStr ''f1'')) porridge_1100"
    by (simp add: remote_wins_def with_food_oats oats_local_fields porridge_1100_fields
        days_from_civil_def)
  have 7: "\<not> remote_wins (table_get (db ?w Foods) (JStr ''f1'')) porridge_0900"
    by (simp add: remote_wins_def with_food_oats oats_local_fields porridge_0900_fields
        days_from_civil_def)
  from last_write_wins [OF decode_1100 porridge_1100_fields(1) 3 4 5] 6
    last_write_wins [OF decode_0900 porridge_0900_fields(1) 3 r4 5] 7
  show ?thesis by blast
qed

text \<open>
  C9. For an incoming change tagged removed with id \<open>i\<close>, the handler completes, the
  local table has no row with key \<open>i\<close> afterwards, whatever it held before, and every
  other row of the table is as it was.
\<close>

theorem removal_is_authoritative:
  "fst (on_change ev c (Removed, i, JObj kvs) w) = None
   \<and> table_get (db (snd (on_change ev c (Removed, i, JObj kvs) w)) c) (JStr i) = None
   \<and> (\<forall>k. k \<noteq> JStr i \<longrightarrow>
        table_get (db (snd (on_change ev c (Removed, i, JObj kvs) w)) c) k = table_get (db w c) k)"
proof -
  obtain r where "deserializeFromFirestore (date_engine ev) (JObj kvs) = Inr (JObj r)"
    using deserialize_object_total by blast
  then show ?thesis
    by (simp add: on_change_def db_delete_def table_get_delete)
qed

text \<open>An instance: of two foods, the one removed remotely goes, the other stays.\<close>

theorem removal_is_authoritative_witness:
  "table_get (db two_foods Foods) (JStr ''f1'') = Some oats_local
   \<and> fst (on_change plain_env Foods (Removed, ''f1'', wire_0900) two_foods) = None
   \<and> table_get (db (snd (on_change plain_env Foods (Removed, ''f1'', wire_0900) two_foods)) Foods)
        (JStr ''f1'') = None
   \<and> table_get (db (snd (on_change plain_env Foods (Removed, ''f1'', wire_0900) two_foods)) Foods)
        (JStr ''f2'') = Some rice"
proof -
  have d: "db two_foods Foods = [(JStr ''f1'', oats_local), (JStr ''f2'', rice)]"
    by (simp add: two_foods_def)
  from removal_is_authoritative [of plain_env Foods "''f1''" _ two_foods]
  show ?thesis by (simp add: wire_0900_def d table_get_def)
qed

section \<open>Echo\<close>

text \<open>
  C1 (amended). The writes of the Remote Reader are not marked. What keeps a forwarded
  write from coming back is the conflict rule alone: when a create or update of an
  entity (one that survives the codec, with \<^verbatim>\<open>updatedAt\<close> a \<^verbatim>\<open>Date\<close> or absent) was
  forwarded as \<^verbatim>\<open>setDoc\<close> and is observed back as added or modified while the local
  store still holds that entity, the timestamps tie, the handler writes nothing and no
  call is made. When the handler does apply a change (here: no local copy), its put
  runs the hooks like any other local write, and every creating hook of the table
  forwards the entity again.
\<close>

theorem echo_only_when_applied:
  assumes "ctype = Added \<or> ctype = Modified"
  shows "(table_get (db w c) (JStr i) = Some (JObj kvs) \<and> codec_safe False (JObj kvs)
            \<and> timestamp_or_absent (get_prop kvs ''updatedAt'')
            \<and> syncDocToFirestore u c (JStr i) (JObj kvs) = Inr (SetDoc u c i raw)
          \<longrightarrow> on_change ev c (ctype, i, raw) w = (None, w))
       \<and> (table_get (db w c) (JStr i) = None
            \<and> deserializeFromFirestore (date_engine ev) raw' = Inr d
            \<and> js_member d ''id'' = JStr i
            \<and> serializeForFirestore d = Inr out
            \<and> Hook c Creating u \<in> set (hooks w)
          \<longrightarrow> SetDoc u c i out \<in> set (calls (snd (on_change ev c (ctype, i, raw') w))))"
proof (intro conjI impI)
  assume a: "table_get (db w c) (JStr i) = Some (JObj kvs) \<and> codec_safe False (JObj kvs)
            \<and> timestamp_or_absent (get_prop kvs ''updatedAt'')
            \<and> syncDocToFirestore u c (JStr i) (JObj kvs) = Inr (SetDoc u c i raw)"
  then have safe: "codec_safe False (JObj kvs)" by simp
  obtain ps where ps: "without_proto (JObj kvs) = JObj ps" by simp
  have "serializeForFirestore (JObj kvs) = Inr (encoded (JObj ps))"
    using serialize_stripped [OF safe] by (simp only: ps)
  with a have raw: "raw = encoded (JObj ps)"
    by (simp add: syncDocToFirestore_def del: encoded.simps)
  have "codec_safe False (JObj ps)" using without_proto_safe [OF safe] by (simp only: ps)
  moreover have "no_proto (JObj ps)" using without_proto_no_proto [of "JObj kvs"] by (simp only: ps)
  ultimately have dec: "deserializeFromFirestore (date_engine ev) raw = Inr (JObj ps)"
    unfolding raw by (rule deserialize_safe)
  have t: "timestamp_or_absent (get_prop kvs ''updatedAt'')" using a by simp
  have "js_member (without_proto (JObj kvs)) ''updatedAt'' = without_proto (get_prop kvs ''updatedAt'')"
    by (rule member_without_proto) simp
  then have "js_member (JObj ps) ''updatedAt'' = without_proto (get_prop kvs ''updatedAt'')"
    by (simp only: ps)
  also have "\<dots> = get_prop kvs ''updatedAt''"
    using t by (cases "get_prop kvs ''updatedAt''") simp_all
  finally have same: "get_prop ps ''updatedAt'' = get_prop kvs ''updatedAt''"
    by (simp add: js_member_def)
  have "should_apply (Some (JObj kvs)) (get_prop kvs ''updatedAt'') (get_prop kvs ''updatedAt'')
          = Inr False"
    using should_apply_typed [OF t t] strictly_newer_irrefl by simp
  then show "on_change ev c (ctype, i, raw) w = (None, w)"
    using a dec same assms by (auto simp: on_change_def js_member_def)
next
  assume b: "table_get (db w c) (JStr i) = None
            \<and> deserializeFromFirestore (date_engine ev) raw' = Inr d
            \<and> js_member d ''id'' = JStr i
            \<and> serializeForFirestore d = Inr out
            \<and> Hook c Creating u \<in> set (hooks w)"
  have "SetDoc u c i out \<in> set (run_hook (Hook c Creating u) c (Created (JStr i) d))"
    using b by (simp add: syncDocToFirestore_def caught_def)
  then have "SetDoc u c i out \<in> set (fire (hooks w) c (Created (JStr i) d))"
    using b fire_member by blast
  then show "SetDoc u c i out \<in> set (calls (snd (on_change ev c (ctype, i, raw') w)))"
    using b assms by (auto simp: on_change_def should_apply_def db_put_def Let_def)
qed

text \<open>
  An instance: the local food observed back is skipped; a food of another device is
  stored and sent out again.
\<close>

theorem echo_only_when_applied_witness:
  "on_change plain_env Foods (Modified, ''f1'', encoded oats_local)
      (startRealtimeSync ''u1'' (with_food oats_local initial))
     = (None, startRealtimeSync ''u1'' (with_food oats_local initial))
   \<and> SetDoc ''u1'' Foods ''f1'' wire_1100 \<in> set (calls (snd
        (on_change plain_env Foods (Added, ''f1'', wire_1100) (startRealtimeSync ''u1'' initial))))"
proof -
  let ?w = "startRealtimeSync ''u1'' (with_food oats_local initial)"
  let ?kvs = "[(''id'', JStr ''f1''), (''name'', JStr ''Oats''),
               (''updatedAt'', JDate (UTC 2024 1 1 10 0 0 0))]"
  have safe: "codec_safe False (JObj ?kvs)" using oats_local_safe by (simp add: oats_local_def)
  have ser: "serializeForFirestore (JObj ?kvs) = Inr (encoded oats_local)"
    using serialize_safe [OF safe] by (simp add: oats_local_def)
  have 1: "table_get (db ?w Foods) (JStr ''f1'') = Some (JObj ?kvs) \<and> codec_safe False (JObj ?kvs)
            \<and> timestamp_or_absent (get_prop ?kvs ''updatedAt'')
            \<and> syncDocToFirestore ''u1'' Foods (JStr ''f1'') (JObj ?kvs)
                 = Inr (SetDoc ''u1'' Foods ''f1'' (encoded oats_local))"
    using safe ser
    by (simp add: start_db with_food_def table_get_def oats_local_def js_member_def
        syncDocToFirestore_def del: encoded.simps codec_safe.simps)
  let ?v = "startRealtimeSync ''u1'' initial"
  have 2: "table_get (db ?v Foods) (JStr ''f1'') = None
            \<and> deserializeFromFirestore (date_engine plain_env) wire_1100 = Inr porridge_1100
            \<and> js_member porridge_1100 ''id'' = JStr ''f1''
            \<and> serializeForFirestore porridge_1100 = Inr wire_1100
            \<and> Hook Foods Creating ''u1'' \<in> set (hooks ?v)"
    using decode_1100 encode_1100
    by (simp add: start_db initial_fields table_get_def porridge_1100_fields u1_hooks)
  have m: "Modified = Added \<or> Modified = Modified" and a: "Added = Added \<or> Added = Modified"
    by simp_all
  from echo_only_when_applied [OF m, where w = ?w and c = Foods and i = "''f1''" and kvs = ?kvs
      and u = "''u1''" and raw = "encoded oats_local" and ev = plain_env] 1
  have x: "on_change plain_env Foods (Modified, ''f1'', encoded oats_local) ?w = (None, ?w)"
    by blast
  from echo_only_when_applied [OF a, where w = ?v and c = Foods and i = "''f1''" and ev = plain_env
      and raw' = wire_1100 and d = porridge_1100 and out = wire_1100 and u = "''u1''"] 2
  have y: "SetDoc ''u1'' Foods ''f1'' wire_1100 \<in> set (calls (snd
        (on_change plain_env Foods (Added, ''f1'', wire_1100) ?v)))"
    by blast
  from x y show ?thesis by simp
qed

text \<open>
  C1 as stated fails: a device with an active session observes the document \<^verbatim>\<open>f1\<close>
  that was forwarded to the remote store; it has no local copy, so the handler puts
  the entity, and the creating hook answers with a \<^verbatim>\<open>setDoc\<close> of the same data.
\<close>

theorem remote_reader_echoes:
  "calls (snd (on_change plain_env Foods (Added, ''f1'', wire_1100)
      (startRealtimeSync ''u1'' initial)))
   = calls (startRealtimeSync ''u1'' initial) @ [SetDoc ''u1'' Foods ''f1'' wire_1100]"
proof -
  let ?w = "startRealtimeSync ''u1'' initial"
  have none: "table_get (db ?w Foods) (JStr ''f1'') = None"
    by (simp add: start_db initial_fields table_get_def)
  have "on_change plain_env Foods (Added, ''f1'', wire_1100) ?w = db_put plain_env Foods porridge_1100 ?w"
    using decode_1100 none by (simp add: on_change_def should_apply_def)
  moreover have "calls (snd (db_put plain_env Foods porridge_1100 ?w))
      = calls ?w @ fire (hooks ?w) Foods (Created (js_member porridge_1100 ''id'') porridge_1100)"
    by (rule put_calls_created) (simp_all add: porridge_1100_fields none)
  moreover have "fire (hooks ?w) Foods (Created (js_member porridge_1100 ''id'') porridge_1100)
      = [SetDoc ''u1'' Foods ''f1'' wire_1100]"
    by (simp add: u1_hooks fire_def porridge_1100_fields syncDocToFirestore_def encode_1100 caught_def)
  ultimately show ?thesis by simp
qed

section \<open>The session\<close>

text \<open>
  C2 (the code does otherwise). After \<^verbatim>\<open>startRealtimeSync("u1")\<close> and
  \<^verbatim>\<open>stopRealtimeSync()\<close> no session is active and no listener is open, yet the
  hooks are still subscribed: a local create of the food \<^verbatim>\<open>f1\<close> issues
  \<^verbatim>\<open>setDoc\<close> for \<^verbatim>\<open>users/u1/foods/f1\<close>.
\<close>

theorem stop_keeps_forwarding:
  "isSyncing (stopRealtimeSync (startRealtimeSync ''u1'' initial)) = False
   \<and> live (stopRealtimeSync (startRealtimeSync ''u1'' initial)) = []
   \<and> calls (snd (db_put plain_env Foods oats_local
        (stopRealtimeSync (startRealtimeSync ''u1'' initial))))
     = calls (stopRealtimeSync (startRealtimeSync ''u1'' initial))
       @ [SetDoc ''u1'' Foods ''f1'' (encoded oats_local)]"
proof -
  let ?w = "stopRealtimeSync (startRealtimeSync ''u1'' initial)"
  have ok: "session_ok ?w"
    by (intro session_ok_stop session_ok_start session_ok_initial)
  have 1: "isSyncing ?w = False" by (simp add: isSyncing_def stop_fields)
  have 2: "live ?w = []" using ok by (simp add: session_ok_def stop_fields)
  have none: "table_get (db ?w Foods) (js_member oats_local ''id'') = None"
    by (simp add: stop_fields start_db initial_fields table_get_def)
  have "calls (snd (db_put plain_env Foods oats_local ?w))
      = calls ?w @ fire (hooks ?w) Foods (Created (js_member oats_local ''id'') oats_local)"
    by (rule put_calls_created) (simp_all add: none, simp add: oats_local_fields)
  moreover have "fire (hooks ?w) Foods (Created (js_member oats_local ''id'') oats_local)
      = [SetDoc ''u1'' Foods ''f1'' (encoded oats_local)]"
    by (simp add: stop_fields u1_hooks fire_def syncDocToFirestore_def caught_def
        oats_local_fields ser_oats)
  ultimately show ?thesis using 1 2 by simp
qed

text \<open>
  C6 (the code does otherwise). A start for another user closes the listeners of the
  user before, and leaves that user's hooks subscribed: after
  \<^verbatim>\<open>startRealtimeSync("u1")\<close> and \<^verbatim>\<open>startRealtimeSync("u2")\<close> the session is bound to
  \<^verbatim>\<open>u2\<close>, the five open listeners are those of \<^verbatim>\<open>u2\<close>, and a local create of the food
  \<^verbatim>\<open>f1\<close> issues \<^verbatim>\<open>setDoc\<close> for \<^verbatim>\<open>users/u1/foods/f1\<close> and for
  \<^verbatim>\<open>users/u2/foods/f1\<close>. And a start after a stop subscribes the hooks a second time:
  after start, stop and start for \<^verbatim>\<open>u1\<close> the same create issues the \<^verbatim>\<open>setDoc\<close> for
  \<^verbatim>\<open>users/u1/foods/f1\<close> twice.
\<close>

theorem start_keeps_old_hooks:
  "currentUserId (startRealtimeSync ''u2'' (startRealtimeSync ''u1'' initial)) = Some ''u2''
   \<and> live (startRealtimeSync ''u2'' (startRealtimeSync ''u1'' initial))
      = [(5, ''u2'', Foods), (6, ''u2'', DailyLogs), (7, ''u2'', MealPlans),
         (8, ''u2'', Inventory), (9, ''u2'', Recipes)]
   \<and> calls (snd (db_put plain_env Foods oats_local
        (startRealtimeSync ''u2'' (startRealtimeSync ''u1'' initial))))
      = calls (startRealtimeSync ''u2'' (startRealtimeSync ''u1'' initial))
        @ [SetDoc ''u1'' Foods ''f1'' (encoded oats_local),
           SetDoc ''u2'' Foods ''f1'' (encoded oats_local)]
   \<and> calls (snd (db_put plain_env Foods oats_local
        (startRealtimeSync ''u1'' (stopRealtimeSync (startRealtimeSync ''u1'' initial)))))
      = calls (startRealtimeSync ''u1'' (stopRealtimeSync (startRealtimeSync ''u1'' initial)))
        @ [SetDoc ''u1'' Foods ''f1'' (encoded oats_local),
           SetDoc ''u1'' Foods ''f1'' (encoded oats_local)]"
proof -
  let ?w1 = "startRealtimeSync ''u1'' initial"
  let ?w2 = "startRealtimeSync ''u2'' ?w1"
  let ?w3 = "startRealtimeSync ''u1'' (stopRealtimeSync ?w1)"
  have i: "currentUserId initial \<noteq> Some ''u1''" by (simp add: initial_def)
  have c2: "currentUserId ?w1 \<noteq> Some ''u2''" by (simp add: start_current)
  have c3: "currentUserId (stopRealtimeSync ?w1) \<noteq> Some ''u1''" by (simp add: stop_fields)
  have l1: "live ?w1 = [(0, ''u1'', Foods), (1, ''u1'', DailyLogs), (2, ''u1'', MealPlans),
         (3, ''u1'', Inventory), (4, ''u1'', Recipes)]"
    "next_handle ?w1 = 5" "syncListeners ?w1 = [0, 1, 2, 3, 4]"
    by (simp_all add: start_eq [OF i] initial_fields)
  have l2: "live ?w2 = [(5, ''u2'', Foods), (6, ''u2'', DailyLogs), (7, ''u2'', MealPlans),
         (8, ''u2'', Inventory), (9, ''u2'', Recipes)]"
    by (simp add: start_eq [OF c2] l1)
  have valid: "valid_key (js_member oats_local ''id'')" by (simp add: oats_local_fields)
  have n2: "table_get (db ?w2 Foods) (js_member oats_local ''id'') = None"
    by (simp add: start_db initial_fields table_get_def)
  have n3: "table_get (db ?w3 Foods) (js_member oats_local ''id'') = None"
    by (simp add: start_db stop_fields initial_fields table_get_def)
  have f2: "fire (hooks ?w2) Foods (Created (js_member oats_local ''id'') oats_local)
      = [SetDoc ''u1'' Foods ''f1'' (encoded oats_local), SetDoc ''u2'' Foods ''f1'' (encoded oats_local)]"
    by (simp add: hooks_after_start [OF c2] u1_hooks fire_def syncDocToFirestore_def caught_def
        oats_local_fields ser_oats)
  have f3: "fire (hooks ?w3) Foods (Created (js_member oats_local ''id'') oats_local)
      = [SetDoc ''u1'' Foods ''f1'' (encoded oats_local), SetDoc ''u1'' Foods ''f1'' (encoded oats_local)]"
    by (simp add: hooks_after_start [OF c3] stop_fields u1_hooks fire_def syncDocToFirestore_def
        caught_def oats_local_fields ser_oats)
  have p2: "calls (snd (db_put plain_env Foods oats_local ?w2))
      = calls ?w2 @ [SetDoc ''u1'' Foods ''f1'' (encoded oats_local),
                     SetDoc ''u2'' Foods ''f1'' (encoded oats_local)]"
    using put_calls_created [OF valid n2, of plain_env] by (simp only: f2)
  have p3: "calls (snd (db_put plain_env Foods oats_local ?w3))
      = calls ?w3 @ [SetDoc ''u1'' Foods ''f1'' (encoded oats_local),
                     SetDoc ''u1'' Foods ''f1'' (encoded oats_local)]"
    using put_calls_created [OF valid n3, of plain_env] by (simp only: f3)
  have cur: "currentUserId ?w2 = Some ''u2''" by (rule start_current)
  from cur l2 p2 p3 show ?thesis by (intro conjI)
qed

text \<open>
  What does hold of the session is the part about the listeners. In every state with
  one session (\<open>session_ok\<close>, which holds when the module is loaded and is kept by start
  and stop), \<^verbatim>\<open>startRealtimeSync(u)\<close> leaves one session, bound to \<open>u\<close>, with exactly one
  open listener per table, all for \<open>u\<close>; a second call with the same \<open>u\<close> changes
  nothing; and a call with another user than the current one first closes every listener
  that was open and only then opens the new ones. The hooks only grow.
\<close>

lemma listeners_exclusive:
  assumes "session_ok w"
  shows "session_ok (startRealtimeSync u w)
       \<and> currentUserId (startRealtimeSync u w) = Some u
       \<and> map snd (live (startRealtimeSync u w)) = map (Pair u) tables
       \<and> startRealtimeSync u (startRealtimeSync u w) = startRealtimeSync u w
       \<and> (currentUserId w \<noteq> Some u \<longrightarrow>
            calls (startRealtimeSync u w)
              = calls w @ map Unsubscribe (map fst (live w))
                @ map (\<lambda>l. OnSnapshot (fst l) u (snd (snd l))) (live (startRealtimeSync u w)))"
proof -
  have ok: "session_ok (startRealtimeSync u w)" using assms by (rule session_ok_start)
  have cur: "currentUserId (startRealtimeSync u w) = Some u" by (rule start_current)
  have one: "map snd (live (startRealtimeSync u w)) = map (Pair u) tables"
    using ok cur by (simp add: session_ok_def)
  have idem: "startRealtimeSync u (startRealtimeSync u w) = startRealtimeSync u w"
    by (rule start_idem)
  have order: "calls (startRealtimeSync u w)
              = calls w @ map Unsubscribe (map fst (live w))
                @ map (\<lambda>l. OnSnapshot (fst l) u (snd (snd l))) (live (startRealtimeSync u w))"
    if False: "currentUserId w \<noteq> Some u"
  proof -
    have t: "map fst (live w) = syncListeners w" using assms by (simp add: session_ok_def)
    have f: "filter (\<lambda>l. fst l \<notin> set (syncListeners w)) (live w) = []"
      using t by (rule tracked_filter)
    show ?thesis by (simp add: start_eq [OF False] f t)
  qed
  from ok cur one idem order show ?thesis by blast
qed

lemma hooks_only_grow:
  "set (hooks w) \<subseteq> set (hooks (startRealtimeSync u w))"
  "hooks (stopRealtimeSync w) = hooks w"
  by (cases "currentUserId w = Some u") (simp_all add: start_same start_eq stop_fields)

section \<open>Bulk transfer\<close>

text \<open>
  C5. Whatever the batch of \<^verbatim>\<open>uploadAllData\<close> writes to the settings collection has
  \<^verbatim>\<open>undefined\<close> for \<^verbatim>\<open>usdaApiKey\<close> and for \<^verbatim>\<open>aiConfig\<close>; and when a local settings
  record exists, then after \<^verbatim>\<open>downloadAllData\<close>, however it ends and whatever the
  remote settings document holds, the local settings record exists and has the
  \<^verbatim>\<open>usdaApiKey\<close> and the \<^verbatim>\<open>aiConfig\<close> it had before.
\<close>

theorem sensitive_fields_stay_local:
  "(upload_batch accepts u d = Inr b \<and> wr \<in> set b \<and> fst (snd (fst wr)) = Settings
      \<longrightarrow> js_member (snd wr) ''usdaApiKey'' = JUndefined
          \<and> js_member (snd wr) ''aiConfig'' = JUndefined)
   \<and> (keeps_sensitive s w \<longrightarrow> keeps_sensitive s (snd (downloadAllData ev u r w)))"
  using upload_batch_settings downloadAllData_keeps by blast

text \<open>
  An instance: local settings with both fields set, remote settings with other values
  for them.
\<close>

theorem sensitive_fields_stay_local_witness:
  "js_member (JObj [(''id'', JStr ''user-settings''), (''theme'', JStr ''dark''),
                    (''usdaApiKey'', JUndefined), (''aiConfig'', JUndefined)]) ''usdaApiKey'' = JUndefined
   \<and> keeps_sensitive my_settings (initial\<lparr>db := pantry\<rparr>)
   \<and> keeps_sensitive my_settings (snd (downloadAllData plain_env ''u1'' cloud (initial\<lparr>db := pantry\<rparr>)))"
proof -
  let ?wr = "((''u1'', Settings, ''user-settings''),
             JObj [(''id'', JStr ''user-settings''), (''theme'', JStr ''dark''),
                   (''usdaApiKey'', JUndefined), (''aiConfig'', JUndefined)])"
  have 1: "upload_batch all_accepted ''u1'' pantry
     = Inr [((''u1'', Foods, ''f1''), encoded oats_local), ((''u1'', Recipes, ''r1''), soup), ?wr]
     \<and> ?wr \<in> set [((''u1'', Foods, ''f1''), encoded oats_local), ((''u1'', Recipes, ''r1''), soup), ?wr]
     \<and> fst (snd (fst ?wr)) = Settings"
    using pantry_batch by (simp del: encoded.simps)
  have 2: "keeps_sensitive my_settings (initial\<lparr>db := pantry\<rparr>)"
    by (simp add: keeps_sensitive_def pantry_settings)
  from sensitive_fields_stay_local [where accepts = all_accepted and u = "''u1''" and d = pantry
      and b = "[((''u1'', Foods, ''f1''), encoded oats_local), ((''u1'', Recipes, ''r1''), soup), ?wr]"
      and wr = ?wr and s = my_settings and w = "initial\<lparr>db := pantry\<rparr>" and ev = plain_env
      and r = cloud] 1 2
  show ?thesis by (simp del: encoded.simps)
qed

text \<open>
  C7 (the code does otherwise). The settings record goes into the batch with
  \<^verbatim>\<open>usdaApiKey: undefined\<close> and \<^verbatim>\<open>aiConfig: undefined\<close> (lines 107-114), and the client
  of the repository refuses a field value \<^verbatim>\<open>undefined\<close>. So whenever the device has a
  settings record, \<^verbatim>\<open>uploadAllData\<close> fails, whatever else the tables hold and whether
  or not the commit would succeed, and the remote store is as it was: no entity of any
  collection is uploaded.
\<close>

theorem upload_fails_with_settings:
  assumes "table_get (d Settings) (JStr ''user-settings'') = Some s"
  shows "fst (uploadAllData firestore_client online u d r) \<noteq> None
       \<and> snd (uploadAllData firestore_client online u d r) = r"
proof -
  from upload_batch_refused [where d = d and s = s and u = u] assms
  obtain e where "upload_batch firestore_client u d = Inl e"
    by blast
  then show ?thesis by (simp add: uploadAllData_def)
qed

text \<open>
  An instance: a device with a food, a recipe and its settings record. \<^verbatim>\<open>batch.set\<close>
  throws on the settings document; the food and the recipe do not reach the remote
  store, which has no recipe and still the older version of the food.
\<close>

theorem upload_fails_with_settings_witness:
  "table_get (pantry Settings) (JStr ''user-settings'') = Some my_settings
   \<and> table_get (pantry Recipes) (JStr ''r1'') = Some soup
   \<and> fst (uploadAllData firestore_client True ''u1'' pantry cloud) = Some FirebaseError
   \<and> snd (uploadAllData firestore_client True ''u1'' pantry cloud) = cloud
   \<and> cloud (''u1'', Recipes) = []
   \<and> cloud (''u1'', Foods) = [(''f1'', wire_0900)]"
proof -
  have 1: "table_get (pantry Settings) (JStr ''user-settings'') = Some my_settings"
    by (rule pantry_settings)
  have 2: "table_get (pantry Recipes) (JStr ''r1'') = Some soup"
    by (simp add: pantry_def table_get_def)
  have 3: "fst (uploadAllData firestore_client True ''u1'' pantry cloud) = Some FirebaseError"
    by (simp add: uploadAllData_def pantry_refused)
  from upload_fails_with_settings [where d = pantry and s = my_settings and online = True
      and u = "''u1''" and r = cloud] 1
  have 4: "snd (uploadAllData firestore_client True ''u1'' pantry cloud) = cloud" by simp
  have 5: "cloud (''u1'', Recipes) = []" "cloud (''u1'', Foods) = [(''f1'', wire_0900)]"
    by (simp_all add: cloud_def)
  from 1 2 3 4 5 show ?thesis by (intro conjI)
qed

text \<open>
  Without a settings record the same upload goes through. There is one batch for all
  collections, not one for each: it holds the write of the food and the write of the
  recipe, and the commit applies both.
\<close>

lemma upload_without_settings:
  "upload_batch firestore_client ''u1'' pantry_without_settings
     = Inr [((''u1'', Foods, ''f1''), encoded oats_local), ((''u1'', Recipes, ''r1''), soup)]
   \<and> fst (uploadAllData firestore_client True ''u1'' pantry_without_settings cloud) = None
   \<and> snd (uploadAllData firestore_client True ''u1'' pantry_without_settings cloud) (''u1'', Foods)
       = [(''f1'', encoded oats_local)]
   \<and> snd (uploadAllData firestore_client True ''u1'' pantry_without_settings cloud) (''u1'', Recipes)
       = [(''r1'', soup)]
   \<and> uploadAllData firestore_client False ''u1'' pantry_without_settings cloud
       = (Some FirebaseError, cloud)"
  by (simp add: uploadAllData_def pantry_without_settings_batch commit_def apply_set_def cloud_def
      del: encoded.simps)

text \<open>
  For every client: when the upload completes, every local entity of every synchronised
  collection has its write (its id, its encoded form) in the one batch, the remote store
  is the old one with the whole batch applied, and it holds, under the user's collection
  and the entity's id, the encoded form of every entity of a table whose entities have
  different ids; when the upload fails, with an entity that cannot be encoded, a
  document the client refuses or a failed commit, the caller gets the error and the
  remote store is as it was.
\<close>

lemma upload_all_or_nothing:
  "(fst (uploadAllData accepts online u d r) \<noteq> None \<longrightarrow>
      snd (uploadAllData accepts online u d r) = r)
   \<and> (fst (uploadAllData accepts online u d r) = None \<longrightarrow>
      (\<exists>b. upload_batch accepts u d = Inr b
         \<and> snd (uploadAllData accepts online u d r) = foldl apply_set r b
         \<and> (\<forall>c \<in> set tables. \<forall>e \<in> set (toArray (d c)).
               \<exists>wr \<in> set b. written accepts u c e wr)
         \<and> (\<forall>c \<in> set tables. distinct (map (\<lambda>e. js_member e ''id'') (toArray (d c))) \<longrightarrow>
               (\<forall>e \<in> set (toArray (d c)).
                  \<exists>i doc. js_member e ''id'' = JStr i \<and> serializeForFirestore e = Inr doc
                    \<and> map_of (snd (uploadAllData accepts online u d r) (u, c)) i = Some doc))))"
proof (cases "upload_batch accepts u d")
  case (Inl e)
  then show ?thesis by (simp add: uploadAllData_def)
next
  case (Inr b)
  have 1: "\<forall>c \<in> set tables. \<forall>e \<in> set (toArray (d c)). \<exists>wr \<in> set b. written accepts u c e wr"
    using upload_batch_covers [OF Inr] by blast
  have 2: "\<forall>c \<in> set tables. distinct (map (\<lambda>e. js_member e ''id'') (toArray (d c))) \<longrightarrow>
      (\<forall>e \<in> set (toArray (d c)).
         \<exists>i doc. js_member e ''id'' = JStr i \<and> serializeForFirestore e = Inr doc
           \<and> map_of (foldl apply_set r b (u, c)) i = Some doc)"
    using upload_batch_stored [OF Inr] by blast
  show ?thesis
  proof (cases online)
    case True
    then show ?thesis using Inr 1 2 by (simp add: uploadAllData_def commit_def)
  next
    case False
    then show ?thesis using Inr by (simp add: uploadAllData_def commit_def)
  qed
qed

text \<open>
  C8. For a synchronised collection other than the settings, when the documents of the
  synchronised collections can be stored (they decode to entities with a valid key) and
  those of the collection decode to different keys, every remote document of the
  collection is, after \<^verbatim>\<open>downloadAllData\<close>, in the local table under the key of its
  entity, decoded: whatever the table held before.
\<close>

theorem bulk_download_unconditional:
  assumes "c \<in> set tables"
    and "\<forall>c' \<in> set tables. \<forall>docSnap \<in> set (r (u, c')). storable ev docSnap"
    and "distinct (map (entity_key ev) (r (u, c)))"
    and "(i, raw) \<in> set (r (u, c))"
    and "deserializeFromFirestore (date_engine ev) raw = Inr d"
  shows "table_get (db (snd (downloadAllData ev u r w)) c) (js_member d ''id'') = Some d"
proof -
  have "db (snd (downloadAllData ev u r w)) c = put_all ev (db w c) (r (u, c))"
    using assms(2,1) by (rule downloadAllData_tables)
  moreover have "table_get (put_all ev (db w c) (r (u, c))) (js_member d ''id'') = Some d"
    using assms(4,3) by (rule put_all_present) (simp add: assms(5))
  ultimately show ?thesis by simp
qed

text \<open>
  An instance: the local food of 10:00 is replaced by the remote version of 09:00, which
  the conflict rule of the Remote Reader would have refused.
\<close>

theorem bulk_download_unconditional_witness:
  "table_get (db (with_food oats_local initial) Foods) (JStr ''f1'') = Some oats_local
   \<and> table_get (db (snd (downloadAllData plain_env ''u1'' cloud (with_food oats_local initial))) Foods)
        (JStr ''f1'')
      = Some porridge_0900"
proof -
  have 1: "Foods \<in> set tables" by (simp add: tables_def)
  have 2: "\<forall>c' \<in> set tables. \<forall>docSnap \<in> set (cloud (''u1'', c')). storable plain_env docSnap"
    by (simp add: tables_def cloud_def storable_def decode_0900 porridge_0900_fields)
  have 3: "distinct (map (entity_key plain_env) (cloud (''u1'', Foods)))"
    by (simp add: cloud_def)
  have 4: "(''f1'', wire_0900) \<in> set (cloud (''u1'', Foods))" by (simp add: cloud_def)
  from bulk_download_unconditional [OF 1 2 3 4 decode_0900, of "with_food oats_local initial"]
    with_food_oats
  show ?thesis by (simp add: porridge_0900_fields)
qed

text \<open>
  C10. When the local settings table has no record under the key \<^verbatim>\<open>user-settings\<close>,
  \<^verbatim>\<open>downloadAllData\<close> leaves the settings table as it was, whatever the remote settings
  collection holds: nothing is stored, and the record is still absent.
\<close>

theorem settings_download_needs_local:
  assumes "table_get (db w Settings) (JStr ''user-settings'') = None"
  shows "db (snd (downloadAllData ev u r w)) Settings = db w Settings
       \<and> table_get (db (snd (downloadAllData ev u r w)) Settings) (JStr ''user-settings'') = None"
proof -
  have "db (snd (downloadAllData ev u r w)) Settings = db w Settings"
  proof (rule downloadAllData_preserves [where P = "\<lambda>w' :: world. db w' Settings = db w Settings"])
    show "db w Settings = db w Settings" by simp
  next
    fix c docs and w' :: world assume "c \<noteq> Settings" "db w' Settings = db w Settings"
    then show "db (snd (download_docs ev c docs w')) Settings = db w Settings"
      using download_docs_other [of Settings c ev docs w'] by simp
  next
    fix docs and w' :: world assume "db w' Settings = db w Settings"
    then show "db (snd (download_settings ev docs w')) Settings = db w Settings"
      using assms by (simp add: download_settings_def split: list.splits sum.splits)
  qed
  then show ?thesis using assms by simp
qed

text \<open>An instance: a device without settings, a remote store with a settings document.\<close>

theorem settings_download_needs_local_witness:
  "cloud (''u1'', Settings) = [(''user-settings'', cloud_settings)]
   \<and> table_get (db initial Settings) (JStr ''user-settings'') = None
   \<and> db (snd (downloadAllData plain_env ''u1'' cloud initial)) Settings = []"
proof -
  have n: "table_get (db initial Settings) (JStr ''user-settings'') = None"
    by (simp add: initial_fields table_get_def)
  from settings_download_needs_local [OF n, of plain_env "''u1''" cloud] n
  show ?thesis by (simp add: cloud_def initial_fields)
qed

end
